theory Spec2Isabelle
  imports Main
begin

section \<open>Tiles, level data and the grid helpers\<close>

text \<open>
  The tile ids of the source (\<open>EMPTY = 0\<close> ... \<open>EXIT = 5\<close>) are an enumeration; the
  grid only ever holds these six values.
\<close>

datatype tile = EMPTY | BRICK | LADDER | ROPE | GOLD | EXIT

type_synonym grid = "tile list list"

definition HOLE_REGEN_FRAMES :: int where
  "HOLE_REGEN_FRAMES = 240"

definition ENEMY_MOVE_INTERVAL :: int where
  "ENEMY_MOVE_INTERVAL = 10"

definition LEVEL_STR :: "string list" where
  "LEVEL_STR =
    [''####################'',
     ''#...........G......#'',
     ''#..====............#'',
     ''#..=..=.....HHH....#'',
     ''#..=..=.....H.H....#'',
     ''#..=..=..G..H.H....#'',
     ''#..=..=.....H.H....#'',
     ''#..=..=.....HHH....#'',
     ''#..=..=............#'',
     ''#..=..=.....G......#'',
     ''#..=..=............#'',
     ''#..=..=......E.....#'',
     ''#..=..=............#'',
     ''#..=..=............#'',
     ''#..=..=............#'',
     ''#..........P.......#'',
     ''####################'']"

text \<open>
  \<open>parse_level\<close>: the inner loop over the characters of one row carries the row built
  so far, the player start, the exit and the gold positions; the outer loop carries the
  grid and the same three values.
\<close>

type_synonym pos = "int \<times> int"

fun parse_row :: "int \<Rightarrow> int \<Rightarrow> string \<Rightarrow> tile list \<times> pos \<times> pos \<times> pos list
    \<Rightarrow> tile list \<times> pos \<times> pos \<times> pos list" where
  "parse_row y x [] acc = acc"
| "parse_row y x (ch # rest) (r, player_start, exit_pos, gold_positions) =
     parse_row y (x + 1) rest
       (if ch = CHR ''.'' then (r @ [EMPTY], player_start, exit_pos, gold_positions)
        else if ch = CHR ''#'' then (r @ [BRICK], player_start, exit_pos, gold_positions)
        else if ch = CHR ''H'' then (r @ [LADDER], player_start, exit_pos, gold_positions)
        else if ch = CHR ''='' then (r @ [ROPE], player_start, exit_pos, gold_positions)
        else if ch = CHR ''G'' then (r @ [GOLD], player_start, exit_pos, gold_positions @ [(x, y)])
        else if ch = CHR ''P'' then (r @ [EMPTY], (x, y), exit_pos, gold_positions)
        else if ch = CHR ''E'' then (r @ [EXIT], player_start, (x, y), gold_positions)
        else (r @ [EMPTY], player_start, exit_pos, gold_positions))"

fun parse_rows :: "int \<Rightarrow> string list \<Rightarrow> grid \<times> pos \<times> pos \<times> pos list
    \<Rightarrow> grid \<times> pos \<times> pos \<times> pos list" where
  "parse_rows y [] acc = acc"
| "parse_rows y (row # rest) (g, player_start, exit_pos, gold_positions) =
     (case parse_row y 0 row ([], player_start, exit_pos, gold_positions) of
        (r, ps, ep, gp) \<Rightarrow> parse_rows (y + 1) rest (g @ [r], ps, ep, gp))"

definition parse_level :: "string list \<Rightarrow> grid \<times> pos \<times> pos \<times> pos list" where
  "parse_level lines = parse_rows 0 lines ([], (1, 1), (1, 1), [])"

text \<open>
  \<open>in_bounds\<close> reads \<open>grid[0]\<close> only after \<open>0 <= y < len(grid)\<close> has held, so the grid
  is not empty there. \<open>tile_at\<close> indexes \<open>grid[y][x]\<close> with \<open>x\<close> checked against the
  first row only: on a grid whose rows differ in length Python would raise IndexError, and
  \<open>rect\<close> below is the shape every grid built by \<open>parse_level LEVEL_STR\<close> has.
\<close>

definition in_bounds :: "grid \<Rightarrow> int \<Rightarrow> int \<Rightarrow> bool" where
  "in_bounds g x y = (0 \<le> y \<and> y < int (length g) \<and> 0 \<le> x \<and> x < int (length (g ! 0)))"

definition tile_at :: "grid \<Rightarrow> int \<Rightarrow> int \<Rightarrow> tile" where
  "tile_at g x y = (if \<not> in_bounds g x y then BRICK else g ! nat y ! nat x)"

definition is_solid :: "tile \<Rightarrow> bool" where
  "is_solid t = (t = BRICK)"

definition is_climbable :: "tile \<Rightarrow> bool" where
  "is_climbable t = (t = LADDER)"

definition is_rope :: "tile \<Rightarrow> bool" where
  "is_rope t = (t = ROPE)"

definition is_walkable :: "tile \<Rightarrow> bool" where
  "is_walkable t = (t \<in> set [EMPTY, LADDER, ROPE, GOLD, EXIT])"

section \<open>Entities and the game state\<close>

record Hole =
  h_x :: int
  h_y :: int
  timer :: int

record Player =
  p_x :: int
  p_y :: int
  gold :: int

record Enemy =
  e_x :: int
  e_y :: int
  respawn :: pos

record Game =
  grid :: grid
  exit_pos :: pos
  player :: Player
  enemies :: "Enemy list"
  holes :: "Hole list"
  won :: bool
  dead :: bool
  countdown :: int
  enemy_frame_counter :: int

definition reset :: Game where
  "reset =
     (case parse_level LEVEL_STR of
        (g, pstart, ep, _) \<Rightarrow>
          \<lparr> grid = g, exit_pos = ep,
            player = \<lparr> p_x = fst pstart, p_y = snd pstart, gold = 0 \<rparr>,
            enemies = [\<lparr> e_x = fst pstart + 6, e_y = snd pstart - 6,
                         respawn = (fst pstart + 6, snd pstart - 6) \<rparr>],
            holes = [], won = False, dead = False, countdown = 300,
            enemy_frame_counter = 0 \<rparr>)"

definition tile :: "Game \<Rightarrow> int \<Rightarrow> int \<Rightarrow> tile" where
  "tile s x y = tile_at (grid s) x y"

definition set_tile :: "Game \<Rightarrow> int \<Rightarrow> int \<Rightarrow> tile \<Rightarrow> Game" where
  "set_tile s x y t =
     (if in_bounds (grid s) x y
      then s\<lparr> grid := (grid s)[nat y := (grid s ! nat y)[nat x := t]] \<rparr>
      else s)"

definition gravity_applies :: "Game \<Rightarrow> int \<Rightarrow> int \<Rightarrow> bool" where
  "gravity_applies s x y =
     (let under = tile s x (y + 1); here = tile s x y in
      if is_rope here then False
      else if is_climbable here then False
      else \<not> is_solid under \<and> \<not> is_climbable under)"

text \<open>\<open>try_move\<close> is only ever called on the player.\<close>

definition try_move :: "Game \<Rightarrow> int \<Rightarrow> int \<Rightarrow> bool \<times> Game" where
  "try_move s dx dy =
     (let nx = p_x (player s) + dx; ny = p_y (player s) + dy in
      if is_walkable (tile s nx ny)
      then (True, s\<lparr> player := (player s)\<lparr> p_x := nx, p_y := ny \<rparr> \<rparr>)
      else (False, s))"

text \<open>
  An enemy is named by its index in \<open>self.enemies\<close>; \<open>other is not e\<close> compares
  object identity, that is, the index.
\<close>

definition try_move_enemy :: "Game \<Rightarrow> nat \<Rightarrow> int \<Rightarrow> int \<Rightarrow> bool \<times> Game" where
  "try_move_enemy s i dx dy =
     (let e = enemies s ! i; nx = e_x e + dx; ny = e_y e + dy in
      if \<not> is_walkable (tile s nx ny) then (False, s)
      else if list_ex (\<lambda>j. j \<noteq> i \<and> (e_x (enemies s ! j), e_y (enemies s ! j)) = (nx, ny))
                [0..<length (enemies s)]
      then (False, s)
      else (True, s\<lparr> enemies := (enemies s)[i := e\<lparr> e_x := nx, e_y := ny \<rparr>] \<rparr>))"

definition collect_gold :: "Game \<Rightarrow> Game" where
  "collect_gold s =
     (if tile s (p_x (player s)) (p_y (player s)) = GOLD
      then (let s1 = set_tile s (p_x (player s)) (p_y (player s)) EMPTY in
            s1\<lparr> player := (player s1)\<lparr> gold := gold (player s1) + 1 \<rparr> \<rparr>)
      else s)"

definition dig :: "Game \<Rightarrow> int \<Rightarrow> Game" where
  "dig s direction =
     (let px = p_x (player s); py = p_y (player s);
          target_x = px + direction; target_y = py + 1 in
      if tile s target_x target_y \<noteq> BRICK then s
      else if \<not> is_walkable (tile s (px + direction) py) then s
      else (let s1 = set_tile s target_x target_y EMPTY in
            s1\<lparr> holes := holes s1 @
                   [\<lparr> h_x = target_x, h_y = target_y, timer = HOLE_REGEN_FRAMES \<rparr>] \<rparr>))"

text \<open>
  \<open>update_holes\<close> walks a copy of the hole list while it mutates the holes and removes
  expired ones from \<open>self.holes\<close>. The loop state is the part of \<open>self.holes\<close> already
  visited (\<open>seen\<close>, holes kept so far) and the part still to visit. \<open>list.remove(h)\<close>
  removes the first element equal to \<open>h\<close> by value (a dataclass compares its fields), and
  that element lies in the visited part or is \<open>h\<close> itself: \<open>remove1\<close> on \<open>seen @ [h']\<close>.
\<close>

definition crush :: "Hole \<Rightarrow> Enemy list \<Rightarrow> Enemy list" where
  "crush h es =
     map (\<lambda>e. if (e_x e, e_y e) = (h_x h, h_y h)
               then e\<lparr> e_x := fst (respawn e), e_y := snd (respawn e) \<rparr> else e) es"

fun update_holes_loop :: "Hole list \<Rightarrow> Hole list \<Rightarrow> Game \<Rightarrow> Game" where
  "update_holes_loop seen [] s = s\<lparr> holes := seen \<rparr>"
| "update_holes_loop seen (h # rest) s =
     (let h' = h\<lparr> timer := timer h - 1 \<rparr> in
      if timer h' \<le> 0
      then update_holes_loop (remove1 h' (seen @ [h'])) rest
             (set_tile (s\<lparr> enemies := crush h' (enemies s) \<rparr>) (h_x h') (h_y h') BRICK)
      else update_holes_loop (seen @ [h']) rest s)"

definition update_holes :: "Game \<Rightarrow> Game" where
  "update_holes s = update_holes_loop [] (holes s) s"

definition enemy_ai_step :: "Game \<Rightarrow> nat \<Rightarrow> Game" where
  "enemy_ai_step s i =
     (let px = p_x (player s); py = p_y (player s);
          ex = e_x (enemies s ! i); ey = e_y (enemies s ! i);
          here = tile s ex ey; up = tile s ex (ey - 1); down = tile s ex (ey + 1) in
      if (is_climbable here \<or> is_climbable down \<or> is_climbable up) \<and>
         py < ey \<and> is_walkable up \<and> (is_climbable here \<or> is_climbable up)
      then snd (try_move_enemy s i 0 (- 1))
      else if (is_climbable here \<or> is_climbable down \<or> is_climbable up) \<and>
         py > ey \<and> is_walkable down \<and> (is_climbable here \<or> is_climbable down)
      then snd (try_move_enemy s i 0 1)
      else if py = ey then
        (if px < ex then snd (try_move_enemy s i (- 1) 0)
         else if px > ex then snd (try_move_enemy s i 1 0)
         else s)
      else if px < ex then snd (try_move_enemy s i (- 1) 0)
      else if px > ex then snd (try_move_enemy s i 1 0)
      else s)"

definition handle_player_move :: "Game \<Rightarrow> int \<Rightarrow> int \<Rightarrow> Game" where
  "handle_player_move s dx dy =
     (if won s \<or> dead s \<or> countdown s > 0 then s
      else if dy \<noteq> 0 \<and>
              \<not> is_walkable (tile s (p_x (player s)) (p_y (player s) + dy)) \<and>
              \<not> (is_climbable (tile s (p_x (player s)) (p_y (player s))) \<or>
                 is_rope (tile s (p_x (player s)) (p_y (player s))))
      then s
      else
        (let s1 = (if dx \<noteq> 0
                   then (case try_move s dx 0 of
                           (True, s') \<Rightarrow> collect_gold s' | (False, s') \<Rightarrow> s')
                   else s) in
         if dy \<noteq> 0
         then (case try_move s1 0 dy of
                 (True, s') \<Rightarrow> collect_gold s' | (False, s') \<Rightarrow> s')
         else s1))"

text \<open>The phases of \<open>update_entities\<close>, in the order of the source.\<close>

definition player_gravity :: "Game \<Rightarrow> Game" where
  "player_gravity s =
     (if gravity_applies s (p_x (player s)) (p_y (player s))
      then snd (try_move s 0 1) else s)"

definition any_gold_left :: "grid \<Rightarrow> bool" where
  "any_gold_left g = list_ex (\<lambda>row. GOLD \<in> set row) g"

definition check_win :: "Game \<Rightarrow> Game" where
  "check_win s =
     (if \<not> any_gold_left (grid s) \<and> (p_x (player s), p_y (player s)) = exit_pos s
      then s\<lparr> won := True \<rparr> else s)"

definition enemy_turn :: "Game \<Rightarrow> nat \<Rightarrow> Game" where
  "enemy_turn s i =
     (if gravity_applies s (e_x (enemies s ! i)) (e_y (enemies s ! i))
      then snd (try_move_enemy s i 0 1)
      else enemy_ai_step s i)"

definition move_enemies :: "Game \<Rightarrow> Game" where
  "move_enemies s =
     (let s1 = s\<lparr> enemy_frame_counter := enemy_frame_counter s + 1 \<rparr> in
      if enemy_frame_counter s1 \<ge> ENEMY_MOVE_INTERVAL
      then foldl enemy_turn (s1\<lparr> enemy_frame_counter := 0 \<rparr>) [0..<length (enemies s1)]
      else s1)"

definition collides :: "Game \<Rightarrow> bool" where
  "collides s =
     list_ex (\<lambda>e. (e_x e, e_y e) = (p_x (player s), p_y (player s))) (enemies s)"

definition check_collision :: "Game \<Rightarrow> Game" where
  "check_collision s = (if collides s then s\<lparr> dead := True \<rparr> else s)"

definition update_entities :: "Game \<Rightarrow> Game" where
  "update_entities s =
     (if won s \<or> dead s then s
      else if countdown s > 0 then s
      else check_collision (move_enemies (check_win (collect_gold (player_gravity s)))))"

definition step :: "Game \<Rightarrow> Game" where
  "step s =
     update_entities
       (update_holes (if countdown s > 0 then s\<lparr> countdown := countdown s - 1 \<rparr> else s))"

section \<open>The input shell: key events and ticks\<close>

text \<open>
  One iteration of the main loop handles the queued key events and then calls
  \<open>game.step()\<close>. A run of the engine is a sequence of key events and ticks, starting
  from \<open>Game()\<close>, which is \<open>reset\<close>.
\<close>

datatype event = K_r | K_z | K_x | K_LEFT | K_RIGHT | K_UP | K_DOWN | Tick

fun apply_event :: "Game \<Rightarrow> event \<Rightarrow> Game" where
  "apply_event s K_r = reset"
| "apply_event s K_z = dig s (- 1)"
| "apply_event s K_x = dig s 1"
| "apply_event s K_LEFT = handle_player_move s (- 1) 0"
| "apply_event s K_RIGHT = handle_player_move s 1 0"
| "apply_event s K_UP = handle_player_move s 0 (- 1)"
| "apply_event s K_DOWN = handle_player_move s 0 1"
| "apply_event s Tick = step s"

definition run :: "event list \<Rightarrow> Game" where
  "run evs = foldl apply_event reset evs"

inductive reachable :: "Game \<Rightarrow> bool" where
  reachable_reset: "reachable reset"
| reachable_event: "reachable s \<Longrightarrow> reachable (apply_event s ev)"

section \<open>Notions used to state the properties\<close>

definition rect :: "grid \<Rightarrow> bool" where
  "rect g = (\<forall>row \<in> set g. length row = length (g ! 0))"

definition relocate :: "Enemy \<Rightarrow> Enemy" where
  "relocate e = e\<lparr> e_x := fst (respawn e), e_y := snd (respawn e) \<rparr>"

definition expiring :: "Hole list \<Rightarrow> int \<Rightarrow> int \<Rightarrow> bool" where
  "expiring hs x y = list_ex (\<lambda>h. timer h \<le> 1 \<and> h_x h = x \<and> h_y h = y) hs"

definition before_entities :: "Game \<Rightarrow> Game" where
  "before_entities s =
     update_holes (if countdown s > 0 then s\<lparr> countdown := countdown s - 1 \<rparr> else s)"

definition win_point :: "Game \<Rightarrow> Game" where
  "win_point s = collect_gold (player_gravity s)"

definition level_grid :: grid where
  "level_grid = fst (parse_level LEVEL_STR)"

definition chase_policy_spec :: "pos \<Rightarrow> pos \<Rightarrow> tile \<Rightarrow> tile \<Rightarrow> tile \<Rightarrow> (int \<times> int) option" where
  "chase_policy_spec epos ppos here up down =
     (if (is_climbable here \<or> is_climbable up \<or> is_climbable down) \<and>
         snd ppos < snd epos \<and> is_walkable up \<and> (is_climbable here \<or> is_climbable up)
      then Some (0, - 1)
      else if (is_climbable here \<or> is_climbable up \<or> is_climbable down) \<and>
         snd ppos > snd epos \<and> is_walkable down \<and> (is_climbable here \<or> is_climbable down)
      then Some (0, 1)
      else if snd ppos = snd epos
      then (if fst ppos < fst epos then Some (- 1, 0)
            else if fst ppos > fst epos then Some (1, 0) else None)
      else if fst ppos < fst epos then Some (- 1, 0)
      else if fst ppos > fst epos then Some (1, 0)
      else None)"

definition other_enemy_at :: "Game \<Rightarrow> nat \<Rightarrow> int \<Rightarrow> int \<Rightarrow> bool" where
  "other_enemy_at s i x y =
     list_ex (\<lambda>j. j \<noteq> i \<and> (e_x (enemies s ! j), e_y (enemies s ! j)) = (x, y))
       [0..<length (enemies s)]"

definition sealed_scene :: Game where
  "sealed_scene =
     (dig reset 1)\<lparr> player := \<lparr> p_x = 12, p_y = 16, gold = 0 \<rparr>,
                    holes := [\<lparr> h_x = 12, h_y = 16, timer = 1 \<rparr>] \<rparr>"

definition same_row_scene :: Game where
  "same_row_scene =
     reset\<lparr> player := \<lparr> p_x = 5, p_y = 15, gold = 0 \<rparr>,
            enemies := [\<lparr> e_x = 10, e_y = 15, respawn = (17, 9) \<rparr>],
            countdown := 0 \<rparr>"

definition exit_scene :: Game where
  "exit_scene =
     reset\<lparr> grid := map (map (\<lambda>t. if t = GOLD then EMPTY else t)) level_grid,
            player := \<lparr> p_x = 13, p_y = 10, gold = 3 \<rparr>,
            countdown := 0 \<rparr>"

definition overlap_scene :: Game where
  "overlap_scene =
     reset\<lparr> enemies := [\<lparr> e_x = 11, e_y = 15, respawn = (17, 9) \<rparr>], countdown := 0 \<rparr>"

definition dig_ok :: "Game \<Rightarrow> int \<Rightarrow> bool" where
  "dig_ok s d =
     (tile s (p_x (player s) + d) (p_y (player s) + 1) = BRICK \<and>
      is_walkable (tile s (p_x (player s) + d) (p_y (player s))))"

definition gold_taken :: "Game \<Rightarrow> Game \<Rightarrow> bool" where
  "gold_taken s s' =
     (rect (grid s') \<and>
      (\<forall>x y. in_bounds (grid s') x y = in_bounds (grid s) x y) \<and>
      (\<forall>x y. tile s' x y = tile s x y \<or> (tile s x y = GOLD \<and> tile s' x y = EMPTY)))"

definition enemy_ok :: "Enemy \<Rightarrow> bool" where
  "enemy_ok e = (respawn e = (17, 9) \<and> 9 \<le> e_y e \<and> (e_y e < 15 \<longrightarrow> e_x e = 17))"

definition grid_ok :: "Game \<Rightarrow> bool" where
  "grid_ok s =
     (rect (grid s) \<and>
      (\<forall>x y. 8 \<le> y \<longrightarrow> tile s x y \<noteq> LADDER) \<and>
      (\<forall>y. 9 \<le> y \<and> y \<le> 15 \<longrightarrow> tile s 17 y = EMPTY))"

definition holes_clear :: "Hole list \<Rightarrow> bool" where
  "holes_clear hs = (\<forall>h \<in> set hs. \<not> (h_x h = 17 \<and> 9 \<le> h_y h \<and> h_y h \<le> 15))"

definition level_inv :: "Game \<Rightarrow> bool" where
  "level_inv s =
     (grid_ok s \<and> holes_clear (holes s) \<and> exit_pos s = (13, 11) \<and>
      length (enemies s) = 1 \<and> (\<forall>e \<in> set (enemies s). enemy_ok e))"

definition flags_inv :: "Game \<Rightarrow> bool" where
  "flags_inv s =
     (0 \<le> countdown s \<and> (0 < countdown s \<longrightarrow> \<not> won s \<and> \<not> dead s) \<and> \<not> (won s \<and> dead s))"

definition starting_inv :: "Game \<Rightarrow> bool" where
  "starting_inv s =
     (0 < countdown s \<longrightarrow>
        p_x (player s) = 11 \<and> p_y (player s) = 15 \<and>
        (\<forall>e \<in> set (enemies s). (e_x e, e_y e) = respawn e) \<and>
        enemy_frame_counter s = 0 \<and> tile s 11 16 = BRICK)"

definition cell :: "Hole \<Rightarrow> pos" where
  "cell h = (h_x h, h_y h)"

definition inside :: "Game \<Rightarrow> Hole \<Rightarrow> bool" where
  "inside s h = in_bounds (grid s) (h_x h) (h_y h)"

definition holes_inv :: "Game \<Rightarrow> bool" where
  "holes_inv s =
     (distinct (map cell (filter (inside s) (holes s))) \<and>
      (\<forall>h \<in> set (holes s). inside s h \<longrightarrow> tile s (h_x h) (h_y h) = EMPTY))"

definition inv :: "Game \<Rightarrow> bool" where
  "inv s = (level_inv s \<and> flags_inv s \<and> starting_inv s \<and> holes_inv s)"

text \<open>
  The session status of the specification, read off the three fields \<open>countdown\<close>,
  \<open>won\<close> and \<open>dead\<close> of the code: a state has a status when the field that stands
  for it says so.
\<close>

datatype status = Starting int | Running | Won | Lost

fun has_status :: "Game \<Rightarrow> status \<Rightarrow> bool" where
  "has_status s (Starting n) = (0 < countdown s \<and> n = countdown s)"
| "has_status s Running = (\<not> 0 < countdown s \<and> \<not> won s \<and> \<not> dead s)"
| "has_status s Won = won s"
| "has_status s Lost = dead s"

definition waiting :: "int \<Rightarrow> Game" where
  "waiting c = reset\<lparr> countdown := c \<rparr>"

definition quiet :: "int \<Rightarrow> Game" where
  "quiet c = reset\<lparr> countdown := 0, enemy_frame_counter := c \<rparr>"

definition rope_scene :: Game where
  "rope_scene =
     reset\<lparr> player := \<lparr> p_x = 3, p_y = 5, gold = 0 \<rparr>,
            enemies := [\<lparr> e_x = 12, e_y = 5, respawn = (17, 9) \<rparr>],
            countdown := 0 \<rparr>"

definition falling_scene :: Game where
  "falling_scene = reset\<lparr> player := \<lparr> p_x = 8, p_y = 5, gold = 0 \<rparr>, countdown := 0 \<rparr>"

definition holes_timed :: "Game \<Rightarrow> bool" where
  "holes_timed s = (\<forall>h \<in> set (holes s). 0 < timer h \<and> timer h \<le> HOLE_REGEN_FRAMES)"

definition nobody_at :: "Game \<Rightarrow> int \<Rightarrow> int \<Rightarrow> bool" where
  "nobody_at s x y = (\<forall>e \<in> set (enemies s). (e_x e, e_y e) \<noteq> (x, y))"

section \<open>The grid operations and the phases of a tick\<close>

lemma in_bounds_upd [simp]:
  "in_bounds (g[i := (g ! i)[j := t]]) x y = in_bounds g x y"
  by (cases "i = 0"; cases "g = []"; simp add: in_bounds_def)

lemma rect_upd: "rect g \<Longrightarrow> rect (g[i := (g ! i)[j := t]])"
  unfolding rect_def
proof (intro ballI)
  fix row assume a: "\<forall>row\<in>set g. length row = length (g ! 0)"
    and r: "row \<in> set (g[i := (g ! i)[j := t]])"
  have l0: "length (g[i := (g ! i)[j := t]] ! 0) = length (g ! 0)"
    by (cases "i = 0"; cases "g = []"; simp)
  from r have "row \<in> insert ((g ! i)[j := t]) (set g)"
    using set_update_subset_insert by fast
  then have "length row = length (g ! 0)"
  proof
    assume e: "row = (g ! i)[j := t]"
    from r have "i < length g \<or> row \<in> set g" by (cases "i < length g") (auto simp: list_update_beyond)
    then show ?thesis using e a by auto
  next
    assume "row \<in> set g" then show ?thesis using a by auto
  qed
  then show "length row = length (g[i := (g ! i)[j := t]] ! 0)" using l0 by simp
qed

lemma rect_row_length: "rect g \<Longrightarrow> in_bounds g x y \<Longrightarrow> nat x < length (g ! nat y)"
proof -
  assume a: "rect g" "in_bounds g x y"
  then have "nat y < length g" "0 \<le> x" "x < int (length (g ! 0))" by (auto simp: in_bounds_def)
  then have "g ! nat y \<in> set g" by simp
  then have "length (g ! nat y) = length (g ! 0)" using a(1) by (simp add: rect_def)
  then show ?thesis using \<open>0 \<le> x\<close> \<open>x < int (length (g ! 0))\<close> by auto
qed

lemma tile_at_upd:
  assumes "rect g" "in_bounds g x y"
  shows "tile_at (g[nat y := (g ! nat y)[nat x := t]]) x' y' =
           (if x' = x \<and> y' = y then t else tile_at g x' y')"
proof (cases "in_bounds g x' y'")
  case False
  then show ?thesis using assms by (auto simp: tile_at_def)
next
  case True
  have ly: "nat y < length g" "nat y' < length g" 
    using assms(2) True by (auto simp: in_bounds_def)
  have lx: "nat x < length (g ! nat y)" using rect_row_length[OF assms] .
  have nn: "0 \<le> x" "0 \<le> y" "0 \<le> x'" "0 \<le> y'" using assms(2) True by (auto simp: in_bounds_def)
  show ?thesis
  proof (cases "y' = y")
    case yy: True
    show ?thesis using True ly lx nn yy
      by (auto simp: tile_at_def nth_list_update)
  next
    case ny: False
    then have "nat y' \<noteq> nat y" using nn by auto
    then show ?thesis using True ly ny by (auto simp: tile_at_def nth_list_update)
  qed
qed

lemma set_tile_fields [simp]:
  "exit_pos (set_tile s x y t) = exit_pos s"
  "player (set_tile s x y t) = player s"
  "enemies (set_tile s x y t) = enemies s"
  "holes (set_tile s x y t) = holes s"
  "won (set_tile s x y t) = won s"
  "dead (set_tile s x y t) = dead s"
  "countdown (set_tile s x y t) = countdown s"
  "enemy_frame_counter (set_tile s x y t) = enemy_frame_counter s"
  by (simp_all add: set_tile_def)

lemma set_tile_rect: "rect (grid s) \<Longrightarrow> rect (grid (set_tile s x y t))"
  by (simp add: set_tile_def rect_upd)

lemma set_tile_in_bounds [simp]:
  "in_bounds (grid (set_tile s x y t)) x' y' = in_bounds (grid s) x' y'"
  by (simp add: set_tile_def)

lemma tile_set_tile:
  "rect (grid s) \<Longrightarrow>
   tile (set_tile s x y t) x' y' =
     (if in_bounds (grid s) x y \<and> x' = x \<and> y' = y then t else tile s x' y')"
  by (simp add: set_tile_def tile_def tile_at_upd)

lemma tile_out_of_bounds: "\<not> in_bounds (grid s) x y \<Longrightarrow> tile s x y = BRICK"
  by (simp add: tile_def tile_at_def)

lemma tile_set_tile_BRICK:
  "rect (grid s) \<Longrightarrow>
   tile (set_tile s x y BRICK) x' y' = (if x' = x \<and> y' = y then BRICK else tile s x' y')"
  by (auto simp: tile_set_tile tile_out_of_bounds)

lemma try_move_fields [simp]:
  "grid (snd (try_move s dx dy)) = grid s"
  "exit_pos (snd (try_move s dx dy)) = exit_pos s"
  "enemies (snd (try_move s dx dy)) = enemies s"
  "holes (snd (try_move s dx dy)) = holes s"
  "won (snd (try_move s dx dy)) = won s"
  "dead (snd (try_move s dx dy)) = dead s"
  "countdown (snd (try_move s dx dy)) = countdown s"
  "enemy_frame_counter (snd (try_move s dx dy)) = enemy_frame_counter s"
  "gold (player (snd (try_move s dx dy))) = gold (player s)"
  by (simp_all add: try_move_def Let_def)

lemma try_move_tile [simp]: "tile (snd (try_move s dx dy)) x y = tile s x y"
  by (simp add: tile_def)

lemma collect_gold_fields [simp]:
  "exit_pos (collect_gold s) = exit_pos s"
  "enemies (collect_gold s) = enemies s"
  "holes (collect_gold s) = holes s"
  "won (collect_gold s) = won s"
  "dead (collect_gold s) = dead s"
  "countdown (collect_gold s) = countdown s"
  "enemy_frame_counter (collect_gold s) = enemy_frame_counter s"
  "p_x (player (collect_gold s)) = p_x (player s)"
  "p_y (player (collect_gold s)) = p_y (player s)"
  by (simp_all add: collect_gold_def Let_def)

lemma collect_gold_rect: "rect (grid s) \<Longrightarrow> rect (grid (collect_gold s))"
  by (simp add: collect_gold_def Let_def set_tile_rect)

lemma collect_gold_in_bounds [simp]:
  "in_bounds (grid (collect_gold s)) x y = in_bounds (grid s) x y"
  by (simp add: collect_gold_def Let_def)

lemma collect_gold_tile:
  "rect (grid s) \<Longrightarrow>
   tile (collect_gold s) x y =
     (if tile s x y = GOLD \<and> x = p_x (player s) \<and> y = p_y (player s) then EMPTY else tile s x y)"
proof -
  assume r: "rect (grid s)"
  show ?thesis
  proof (cases "tile s (p_x (player s)) (p_y (player s)) = GOLD")
    case False
    then show ?thesis by (auto simp: collect_gold_def)
  next
    case True
    then have ib: "in_bounds (grid s) (p_x (player s)) (p_y (player s))"
      using tile_out_of_bounds by fastforce
    have "tile (collect_gold s) x y = tile (set_tile s (p_x (player s)) (p_y (player s)) EMPTY) x y"
      using True by (simp add: collect_gold_def Let_def tile_def)
    then show ?thesis using True ib r by (auto simp: tile_set_tile)
  qed
qed

lemma player_gravity_fields [simp]:
  "grid (player_gravity s) = grid s"
  "exit_pos (player_gravity s) = exit_pos s"
  "enemies (player_gravity s) = enemies s"
  "holes (player_gravity s) = holes s"
  "won (player_gravity s) = won s"
  "dead (player_gravity s) = dead s"
  "countdown (player_gravity s) = countdown s"
  "enemy_frame_counter (player_gravity s) = enemy_frame_counter s"
  "gold (player (player_gravity s)) = gold (player s)"
  "p_x (player (player_gravity s)) = p_x (player s)"
  by (simp_all add: player_gravity_def try_move_def Let_def)

lemma player_gravity_tile [simp]: "tile (player_gravity s) x y = tile s x y"
  by (simp add: tile_def)

lemma check_win_fields [simp]:
  "grid (check_win s) = grid s"
  "exit_pos (check_win s) = exit_pos s"
  "player (check_win s) = player s"
  "enemies (check_win s) = enemies s"
  "holes (check_win s) = holes s"
  "dead (check_win s) = dead s"
  "countdown (check_win s) = countdown s"
  "enemy_frame_counter (check_win s) = enemy_frame_counter s"
  by (simp_all add: check_win_def)

lemma check_win_tile [simp]: "tile (check_win s) x y = tile s x y"
  by (simp add: tile_def)

lemma check_collision_fields [simp]:
  "grid (check_collision s) = grid s"
  "exit_pos (check_collision s) = exit_pos s"
  "player (check_collision s) = player s"
  "enemies (check_collision s) = enemies s"
  "holes (check_collision s) = holes s"
  "won (check_collision s) = won s"
  "countdown (check_collision s) = countdown s"
  "enemy_frame_counter (check_collision s) = enemy_frame_counter s"
  by (simp_all add: check_collision_def)

lemma check_collision_dead: "dead (check_collision s) = (dead s \<or> collides s)"
  by (simp add: check_collision_def)

lemma try_move_enemy_fields [simp]:
  "grid (snd (try_move_enemy s i dx dy)) = grid s"
  "exit_pos (snd (try_move_enemy s i dx dy)) = exit_pos s"
  "player (snd (try_move_enemy s i dx dy)) = player s"
  "holes (snd (try_move_enemy s i dx dy)) = holes s"
  "won (snd (try_move_enemy s i dx dy)) = won s"
  "dead (snd (try_move_enemy s i dx dy)) = dead s"
  "countdown (snd (try_move_enemy s i dx dy)) = countdown s"
  "enemy_frame_counter (snd (try_move_enemy s i dx dy)) = enemy_frame_counter s"
  "length (enemies (snd (try_move_enemy s i dx dy))) = length (enemies s)"
  by (simp_all add: try_move_enemy_def Let_def)

lemma enemy_ai_step_fields [simp]:
  "grid (enemy_ai_step s i) = grid s"
  "exit_pos (enemy_ai_step s i) = exit_pos s"
  "player (enemy_ai_step s i) = player s"
  "holes (enemy_ai_step s i) = holes s"
  "won (enemy_ai_step s i) = won s"
  "dead (enemy_ai_step s i) = dead s"
  "countdown (enemy_ai_step s i) = countdown s"
  "enemy_frame_counter (enemy_ai_step s i) = enemy_frame_counter s"
  "length (enemies (enemy_ai_step s i)) = length (enemies s)"
  by (simp_all add: enemy_ai_step_def Let_def)

lemma enemy_turn_fields [simp]:
  "grid (enemy_turn s i) = grid s"
  "exit_pos (enemy_turn s i) = exit_pos s"
  "player (enemy_turn s i) = player s"
  "holes (enemy_turn s i) = holes s"
  "won (enemy_turn s i) = won s"
  "dead (enemy_turn s i) = dead s"
  "countdown (enemy_turn s i) = countdown s"
  "enemy_frame_counter (enemy_turn s i) = enemy_frame_counter s"
  "length (enemies (enemy_turn s i)) = length (enemies s)"
  by (simp_all add: enemy_turn_def)

lemma foldl_enemy_turn_fields [simp]:
  "grid (foldl enemy_turn s js) = grid s"
  "exit_pos (foldl enemy_turn s js) = exit_pos s"
  "player (foldl enemy_turn s js) = player s"
  "holes (foldl enemy_turn s js) = holes s"
  "won (foldl enemy_turn s js) = won s"
  "dead (foldl enemy_turn s js) = dead s"
  "countdown (foldl enemy_turn s js) = countdown s"
  "enemy_frame_counter (foldl enemy_turn s js) = enemy_frame_counter s"
  "length (enemies (foldl enemy_turn s js)) = length (enemies s)"
  by (induction js arbitrary: s; simp)+

lemma move_enemies_fields [simp]:
  "grid (move_enemies s) = grid s"
  "exit_pos (move_enemies s) = exit_pos s"
  "player (move_enemies s) = player s"
  "holes (move_enemies s) = holes s"
  "won (move_enemies s) = won s"
  "dead (move_enemies s) = dead s"
  "countdown (move_enemies s) = countdown s"
  "length (enemies (move_enemies s)) = length (enemies s)"
  by (simp_all add: move_enemies_def Let_def)

lemma expiring_Nil [simp]: "expiring [] x y = False"
  by (simp add: expiring_def)

lemma expiring_Cons:
  "expiring (h # hs) x y = ((timer h \<le> 1 \<and> h_x h = x \<and> h_y h = y) \<or> expiring hs x y)"
  by (simp add: expiring_def)

lemma uhl_fields [simp]:
  "player (update_holes_loop seen todo s) = player s"
  "exit_pos (update_holes_loop seen todo s) = exit_pos s"
  "won (update_holes_loop seen todo s) = won s"
  "dead (update_holes_loop seen todo s) = dead s"
  "countdown (update_holes_loop seen todo s) = countdown s"
  "enemy_frame_counter (update_holes_loop seen todo s) = enemy_frame_counter s"
  by (induction seen todo s rule: update_holes_loop.induct; simp add: Let_def)+

lemma uhl_holes:
  "\<forall>h \<in> set seen. 0 < timer h \<Longrightarrow>
   holes (update_holes_loop seen todo s) =
     seen @ map (\<lambda>h. h\<lparr> timer := timer h - 1 \<rparr>) (filter (\<lambda>h. 1 < timer h) todo)"
proof (induction seen todo s rule: update_holes_loop.induct)
  case (1 seen s)
  then show ?case by simp
next
  case (2 seen h rest s)
  show ?case
  proof (cases "timer h - 1 \<le> 0")
    case True
    then have T': "timer (h\<lparr> timer := timer h - 1 \<rparr>) \<le> 0" by simp
    have "h\<lparr> timer := timer h - 1 \<rparr> \<notin> set seen"
      using True "2.prems" by force
    then have rm: "remove1 (h\<lparr> timer := timer h - 1 \<rparr>) (seen @ [h\<lparr> timer := timer h - 1 \<rparr>]) = seen"
      by (simp add: remove1_append)
    show ?thesis using True "2.IH"(1)[OF refl T'] "2.prems" rm
      by (simp add: Let_def)
  next
    case False
    then have F': "\<not> timer (h\<lparr> timer := timer h - 1 \<rparr>) \<le> 0" by simp
    show ?thesis using False "2.IH"(2)[OF refl F'] "2.prems"
      by (simp add: Let_def)
  qed
qed

lemma crush_length [simp]: "length (crush h es) = length es"
  by (simp add: crush_def)

lemma relocate_simps [simp]:
  "respawn (relocate e) = respawn e"
  "e_x (relocate e) = fst (respawn e)"
  "e_y (relocate e) = snd (respawn e)"
  "relocate (relocate e) = relocate e"
  by (simp_all add: relocate_def)

lemma uhl_enemies:
  "enemies (update_holes_loop seen todo s) =
     map (\<lambda>e. if expiring todo (e_x e) (e_y e) then relocate e else e) (enemies s)"
proof (induction seen todo s rule: update_holes_loop.induct)
  case (1 seen s)
  then show ?case by (simp add: map_idI)
next
  case (2 seen h rest s)
  show ?case
  proof (cases "timer h - 1 \<le> 0")
    case True
    then have T': "timer (h\<lparr> timer := timer h - 1 \<rparr>) \<le> 0" by simp
    then have t1: "timer h \<le> 1" by simp
    have "enemies (update_holes_loop seen (h # rest) s) =
        map (\<lambda>e. if expiring rest (e_x e) (e_y e) then relocate e else e)
          (crush (h\<lparr> timer := timer h - 1 \<rparr>) (enemies s))"
      using True "2.IH"(1)[OF refl T'] by (simp add: Let_def)
    also have "\<dots> = map (\<lambda>e. if expiring (h # rest) (e_x e) (e_y e) then relocate e else e) (enemies s)"
      using t1 by (auto simp: crush_def expiring_Cons relocate_def)
    finally show ?thesis .
  next
    case False
    then have t1: "\<not> timer h \<le> 1" by simp
    from False have F': "\<not> timer (h\<lparr> timer := timer h - 1 \<rparr>) \<le> 0" by simp
    show ?thesis using False "2.IH"(2)[OF refl F'] t1
      by (simp add: Let_def expiring_Cons)
  qed
qed

lemma uhl_rect: "rect (grid s) \<Longrightarrow> rect (grid (update_holes_loop seen todo s))"
proof (induction seen todo s rule: update_holes_loop.induct)
  case (1 seen s)
  then show ?case by simp
next
  case (2 seen h rest s)
  have "rect (grid (set_tile (s\<lparr>enemies := crush (h\<lparr>timer := timer h - 1\<rparr>) (enemies s)\<rparr>)
           (h_x h) (h_y h) BRICK))"
    using "2.prems" by (simp add: set_tile_rect)
  then show ?case using 2 by (simp add: Let_def)
qed

lemma uhl_in_bounds [simp]:
  "in_bounds (grid (update_holes_loop seen todo s)) x y = in_bounds (grid s) x y"
  by (induction seen todo s rule: update_holes_loop.induct; simp add: Let_def)

lemma tile_enemies_update [simp]: "tile (s\<lparr>enemies := es\<rparr>) x y = tile s x y"
  by (simp add: tile_def)

lemma uhl_tile:
  "rect (grid s) \<Longrightarrow>
   tile (update_holes_loop seen todo s) x y = (if expiring todo x y then BRICK else tile s x y)"
proof (induction seen todo s rule: update_holes_loop.induct)
  case (1 seen s)
  then show ?case by (simp add: tile_def)
next
  case (2 seen h rest s)
  show ?case
  proof (cases "timer h - 1 \<le> 0")
    case True
    then have T': "timer (h\<lparr> timer := timer h - 1 \<rparr>) \<le> 0" by simp
    let ?h' = "h\<lparr>timer := timer h - 1\<rparr>"
    let ?s1 = "set_tile (s\<lparr>enemies := crush ?h' (enemies s)\<rparr>) (h_x ?h') (h_y ?h') BRICK"
    have r1: "rect (grid ?s1)" using "2.prems" by (simp add: set_tile_rect)
    have t1: "tile ?s1 x y = (if x = h_x h \<and> y = h_y h then BRICK else tile s x y)"
      using "2.prems" by (simp add: tile_set_tile_BRICK)
    have "tile (update_holes_loop seen (h # rest) s) x y =
            (if expiring rest x y then BRICK else tile ?s1 x y)"
      using True "2.IH"(1)[OF refl T' r1] by (simp add: Let_def)
    then show ?thesis using t1 True by (auto simp: expiring_Cons)
  next
    case False
    then have F': "\<not> timer (h\<lparr> timer := timer h - 1 \<rparr>) \<le> 0" by simp
    show ?thesis using False "2.IH"(2)[OF refl F' "2.prems"]
      by (auto simp: Let_def expiring_Cons)
  qed
qed

lemma update_holes_fields [simp]:
  "player (update_holes s) = player s"
  "exit_pos (update_holes s) = exit_pos s"
  "won (update_holes s) = won s"
  "dead (update_holes s) = dead s"
  "countdown (update_holes s) = countdown s"
  "enemy_frame_counter (update_holes s) = enemy_frame_counter s"
  by (simp_all add: update_holes_def)

lemma update_holes_holes:
  "holes (update_holes s) =
     map (\<lambda>h. h\<lparr> timer := timer h - 1 \<rparr>) (filter (\<lambda>h. 1 < timer h) (holes s))"
  by (simp add: update_holes_def uhl_holes)

lemma update_holes_enemies:
  "enemies (update_holes s) =
     map (\<lambda>e. if expiring (holes s) (e_x e) (e_y e) then relocate e else e) (enemies s)"
  by (simp add: update_holes_def uhl_enemies)

lemma update_holes_rect: "rect (grid s) \<Longrightarrow> rect (grid (update_holes s))"
  by (simp add: update_holes_def uhl_rect)

lemma update_holes_in_bounds [simp]:
  "in_bounds (grid (update_holes s)) x y = in_bounds (grid s) x y"
  by (simp add: update_holes_def)

lemma update_holes_tile:
  "rect (grid s) \<Longrightarrow>
   tile (update_holes s) x y = (if expiring (holes s) x y then BRICK else tile s x y)"
  by (simp add: update_holes_def uhl_tile)

lemma expiring_mem: "h \<in> set hs \<Longrightarrow> timer h \<le> 1 \<Longrightarrow> expiring hs (h_x h) (h_y h)"
  by (auto simp: expiring_def list_ex_iff)

lemma parse_level_LEVEL_STR:
  "parse_level LEVEL_STR =
    ([[BRICK, BRICK, BRICK, BRICK, BRICK, BRICK, BRICK, BRICK, BRICK, BRICK, BRICK, BRICK, BRICK, BRICK, BRICK, BRICK, BRICK, BRICK, BRICK, BRICK],
      [BRICK, EMPTY, EMPTY, EMPTY, EMPTY, EMPTY, EMPTY, EMPTY, EMPTY, EMPTY, EMPTY, EMPTY, GOLD, EMPTY, EMPTY, EMPTY, EMPTY, EMPTY, EMPTY, BRICK],
      [BRICK, EMPTY, EMPTY, ROPE, ROPE, ROPE, ROPE, EMPTY, EMPTY, EMPTY, EMPTY, EMPTY, EMPTY, EMPTY, EMPTY, EMPTY, EMPTY, EMPTY, EMPTY, BRICK],
      [BRICK, EMPTY, EMPTY, ROPE, EMPTY, EMPTY, ROPE, EMPTY, EMPTY, EMPTY, EMPTY, EMPTY, LADDER, LADDER, LADDER, EMPTY, EMPTY, EMPTY, EMPTY, BRICK],
      [BRICK, EMPTY, EMPTY, ROPE, EMPTY, EMPTY, ROPE, EMPTY, EMPTY, EMPTY, EMPTY, EMPTY, LADDER, EMPTY, LADDER, EMPTY, EMPTY, EMPTY, EMPTY, BRICK],
      [BRICK, EMPTY, EMPTY, ROPE, EMPTY, EMPTY, ROPE, EMPTY, EMPTY, GOLD, EMPTY, EMPTY, LADDER, EMPTY, LADDER, EMPTY, EMPTY, EMPTY, EMPTY, BRICK],
      [BRICK, EMPTY, EMPTY, ROPE, EMPTY, EMPTY, ROPE, EMPTY, EMPTY, EMPTY, EMPTY, EMPTY, LADDER, EMPTY, LADDER, EMPTY, EMPTY, EMPTY, EMPTY, BRICK],
      [BRICK, EMPTY, EMPTY, ROPE, EMPTY, EMPTY, ROPE, EMPTY, EMPTY, EMPTY, EMPTY, EMPTY, LADDER, LADDER, LADDER, EMPTY, EMPTY, EMPTY, EMPTY, BRICK],
      [BRICK, EMPTY, EMPTY, ROPE, EMPTY, EMPTY, ROPE, EMPTY, EMPTY, EMPTY, EMPTY, EMPTY, EMPTY, EMPTY, EMPTY, EMPTY, EMPTY, EMPTY, EMPTY, BRICK],
      [BRICK, EMPTY, EMPTY, ROPE, EMPTY, EMPTY, ROPE, EMPTY, EMPTY, EMPTY, EMPTY, EMPTY, GOLD, EMPTY, EMPTY, EMPTY, EMPTY, EMPTY, EMPTY, BRICK],
      [BRICK, EMPTY, EMPTY, ROPE, EMPTY, EMPTY, ROPE, EMPTY, EMPTY, EMPTY, EMPTY, EMPTY, EMPTY, EMPTY, EMPTY, EMPTY, EMPTY, EMPTY, EMPTY, BRICK],
      [BRICK, EMPTY, EMPTY, ROPE, EMPTY, EMPTY, ROPE, EMPTY, EMPTY, EMPTY, EMPTY, EMPTY, EMPTY, EXIT, EMPTY, EMPTY, EMPTY, EMPTY, EMPTY, BRICK],
      [BRICK, EMPTY, EMPTY, ROPE, EMPTY, EMPTY, ROPE, EMPTY, EMPTY, EMPTY, EMPTY, EMPTY, EMPTY, EMPTY, EMPTY, EMPTY, EMPTY, EMPTY, EMPTY, BRICK],
      [BRICK, EMPTY, EMPTY, ROPE, EMPTY, EMPTY, ROPE, EMPTY, EMPTY, EMPTY, EMPTY, EMPTY, EMPTY, EMPTY, EMPTY, EMPTY, EMPTY, EMPTY, EMPTY, BRICK],
      [BRICK, EMPTY, EMPTY, ROPE, EMPTY, EMPTY, ROPE, EMPTY, EMPTY, EMPTY, EMPTY, EMPTY, EMPTY, EMPTY, EMPTY, EMPTY, EMPTY, EMPTY, EMPTY, BRICK],
      [BRICK, EMPTY, EMPTY, EMPTY, EMPTY, EMPTY, EMPTY, EMPTY, EMPTY, EMPTY, EMPTY, EMPTY, EMPTY, EMPTY, EMPTY, EMPTY, EMPTY, EMPTY, EMPTY, BRICK],
      [BRICK, BRICK, BRICK, BRICK, BRICK, BRICK, BRICK, BRICK, BRICK, BRICK, BRICK, BRICK, BRICK, BRICK, BRICK, BRICK, BRICK, BRICK, BRICK, BRICK]],
     (11, 15), (13, 11), [(12, 1), (9, 5), (12, 9)])"
  by (simp add: parse_level_def LEVEL_STR_def)

lemma reset_fields:
  "grid reset = level_grid"
  "exit_pos reset = (13, 11)"
  "player reset = \<lparr> p_x = 11, p_y = 15, gold = 0 \<rparr>"
  "enemies reset = [\<lparr> e_x = 17, e_y = 9, respawn = (17, 9) \<rparr>]"
  "holes reset = []"
  "won reset = False"
  "dead reset = False"
  "countdown reset = 300"
  "enemy_frame_counter reset = 0"
  by (simp_all add: reset_def level_grid_def parse_level_LEVEL_STR)

lemmas level_grid_eq = level_grid_def[unfolded parse_level_LEVEL_STR fst_conv]

lemma level_dims: "length level_grid = 17" "\<forall>row \<in> set level_grid. length row = 20"
  by (simp_all add: level_grid_eq)

lemma level_rect: "rect level_grid"
  by (simp add: rect_def level_grid_eq)

lemma level_in_bounds: "in_bounds level_grid x y = (0 \<le> y \<and> y < 17 \<and> 0 \<le> x \<and> x < 20)"
  by (simp add: in_bounds_def level_grid_eq)

lemma any_gold_left_iff: "any_gold_left g = (\<exists>row \<in> set g. GOLD \<in> set row)"
  by (simp add: any_gold_left_def list_ex_iff)

lemma any_gold_left_tile:
  assumes "rect g"
  shows "any_gold_left g = (\<exists>x y. tile_at g x y = GOLD)"
proof
  assume "any_gold_left g"
  then obtain row where row: "row \<in> set g" "GOLD \<in> set row"
    by (auto simp: any_gold_left_iff)
  then obtain i where i: "i < length g" "g ! i = row" by (auto simp: in_set_conv_nth)
  from row obtain j where j: "j < length row" "row ! j = GOLD" by (auto simp: in_set_conv_nth)
  have "length row = length (g ! 0)" using assms row by (simp add: rect_def)
  then have "in_bounds g (int j) (int i)" using i j by (simp add: in_bounds_def)
  then have "tile_at g (int j) (int i) = GOLD" using i j by (simp add: tile_at_def)
  then show "\<exists>x y. tile_at g x y = GOLD" by blast
next
  assume "\<exists>x y. tile_at g x y = GOLD"
  then obtain x y where xy: "tile_at g x y = GOLD" by blast
  then have ib: "in_bounds g x y" by (auto simp: tile_at_def split: if_splits)
  then have "nat y < length g" by (auto simp: in_bounds_def)
  then have r: "g ! nat y \<in> set g" by simp
  have "nat x < length (g ! nat y)" using rect_row_length[OF assms ib] .
  then have "g ! nat y ! nat x \<in> set (g ! nat y)" by simp
  then have "GOLD \<in> set (g ! nat y)" using xy ib by (simp add: tile_at_def)
  then show "any_gold_left g" using r by (auto simp: any_gold_left_iff)
qed

lemma win_point_fields [simp]:
  "exit_pos (win_point s) = exit_pos s"
  "enemies (win_point s) = enemies s"
  "holes (win_point s) = holes s"
  "won (win_point s) = won s"
  "dead (win_point s) = dead s"
  "countdown (win_point s) = countdown s"
  "enemy_frame_counter (win_point s) = enemy_frame_counter s"
  by (simp_all add: win_point_def)

lemma update_entities_idle: "won s \<or> dead s \<or> countdown s > 0 \<Longrightarrow> update_entities s = s"
  by (auto simp: update_entities_def)

lemma update_entities_running:
  "\<not> won s \<Longrightarrow> \<not> dead s \<Longrightarrow> countdown s \<le> 0 \<Longrightarrow>
   update_entities s = check_collision (move_enemies (check_win (win_point s)))"
  by (simp add: update_entities_def win_point_def)

lemma check_win_won:
  "won (check_win s) =
     (won s \<or> (\<not> any_gold_left (grid s) \<and> (p_x (player s), p_y (player s)) = exit_pos s))"
  by (simp add: check_win_def)

lemma before_entities_fields [simp]:
  "player (before_entities s) = player s"
  "exit_pos (before_entities s) = exit_pos s"
  "won (before_entities s) = won s"
  "dead (before_entities s) = dead s"
  "countdown (before_entities s) = (if countdown s > 0 then countdown s - 1 else countdown s)"
  "enemy_frame_counter (before_entities s) = enemy_frame_counter s"
  by (simp_all add: before_entities_def)

lemma step_eq: "step s = update_entities (before_entities s)"
  by (simp add: step_def before_entities_def)

lemma collides_check_collision [simp]: "collides (check_collision s) = collides s"
  by (simp add: collides_def)

lemma collides_iff:
  "collides s = (\<exists>e \<in> set (enemies s). (e_x e, e_y e) = (p_x (player s), p_y (player s)))"
  by (simp add: collides_def list_ex_iff)

lemma move_enemies_idle:
  "enemy_frame_counter s + 1 < ENEMY_MOVE_INTERVAL \<Longrightarrow> enemies (move_enemies s) = enemies s"
  by (simp add: move_enemies_def Let_def)

lemma try_move_enemy_eq:
  "snd (try_move_enemy s i dx dy) =
     (if is_walkable (tile s (e_x (enemies s ! i) + dx) (e_y (enemies s ! i) + dy)) \<and>
         \<not> other_enemy_at s i (e_x (enemies s ! i) + dx) (e_y (enemies s ! i) + dy)
      then s\<lparr> enemies := (enemies s)[i := (enemies s ! i)\<lparr> e_x := e_x (enemies s ! i) + dx,
                                                        e_y := e_y (enemies s ! i) + dy \<rparr>] \<rparr>
      else s)"
  by (simp add: try_move_enemy_def other_enemy_at_def Let_def)

lemma enemy_ai_step_policy:
  "enemy_ai_step s i =
     (case chase_policy_spec (e_x (enemies s ! i), e_y (enemies s ! i))
             (p_x (player s), p_y (player s))
             (tile s (e_x (enemies s ! i)) (e_y (enemies s ! i)))
             (tile s (e_x (enemies s ! i)) (e_y (enemies s ! i) - 1))
             (tile s (e_x (enemies s ! i)) (e_y (enemies s ! i) + 1)) of
        None \<Rightarrow> s
      | Some (dx, dy) \<Rightarrow> snd (try_move_enemy s i dx dy))"
  unfolding enemy_ai_step_def chase_policy_spec_def Let_def
  by (cases "is_climbable (tile s (e_x (enemies s ! i)) (e_y (enemies s ! i)))";
      cases "is_climbable (tile s (e_x (enemies s ! i)) (e_y (enemies s ! i) - 1))";
      cases "is_climbable (tile s (e_x (enemies s ! i)) (e_y (enemies s ! i) + 1))";
      simp)

section \<open>Digging, player moves and the level invariant\<close>

lemma dig_eq:
  "dig s d =
     (if dig_ok s d
      then (set_tile s (p_x (player s) + d) (p_y (player s) + 1) EMPTY)
             \<lparr> holes := holes s @ [\<lparr> h_x = p_x (player s) + d, h_y = p_y (player s) + 1,
                                     timer = HOLE_REGEN_FRAMES \<rparr>] \<rparr>
      else s)"
  by (auto simp: dig_def dig_ok_def Let_def)

lemma dig_fields [simp]:
  "exit_pos (dig s d) = exit_pos s"
  "player (dig s d) = player s"
  "enemies (dig s d) = enemies s"
  "won (dig s d) = won s"
  "dead (dig s d) = dead s"
  "countdown (dig s d) = countdown s"
  "enemy_frame_counter (dig s d) = enemy_frame_counter s"
  by (simp_all add: dig_eq)

lemma dig_holes:
  "holes (dig s d) =
     (if dig_ok s d
      then holes s @ [\<lparr> h_x = p_x (player s) + d, h_y = p_y (player s) + 1,
                        timer = HOLE_REGEN_FRAMES \<rparr>]
      else holes s)"
  by (simp add: dig_eq)

lemma dig_rect: "rect (grid s) \<Longrightarrow> rect (grid (dig s d))"
  by (simp add: dig_eq set_tile_rect)

lemma dig_in_bounds [simp]: "in_bounds (grid (dig s d)) x y = in_bounds (grid s) x y"
  by (simp add: dig_eq)

lemma tile_holes_update [simp]: "tile (s\<lparr>holes := hs\<rparr>) x y = tile s x y"
  by (simp add: tile_def)

lemma tile_player_update [simp]: "tile (s\<lparr>player := p\<rparr>) x y = tile s x y"
  by (simp add: tile_def)

lemma tile_countdown_update [simp]: "tile (s\<lparr>countdown := c\<rparr>) x y = tile s x y"
  by (simp add: tile_def)

lemma tile_counter_update [simp]: "tile (s\<lparr>enemy_frame_counter := c\<rparr>) x y = tile s x y"
  by (simp add: tile_def)

lemma tile_won_update [simp]: "tile (s\<lparr>won := c\<rparr>) x y = tile s x y"
  by (simp add: tile_def)

lemma tile_dead_update [simp]: "tile (s\<lparr>dead := c\<rparr>) x y = tile s x y"
  by (simp add: tile_def)

lemma dig_tile:
  "rect (grid s) \<Longrightarrow>
   tile (dig s d) x y =
     (if dig_ok s d \<and> in_bounds (grid s) (p_x (player s) + d) (p_y (player s) + 1) \<and>
         x = p_x (player s) + d \<and> y = p_y (player s) + 1
      then EMPTY else tile s x y)"
  by (simp add: dig_eq tile_set_tile)

lemma gold_taken_refl: "rect (grid s) \<Longrightarrow> gold_taken s s"
  by (simp add: gold_taken_def)

lemma gold_taken_trans: "gold_taken s s' \<Longrightarrow> gold_taken s' s'' \<Longrightarrow> gold_taken s s''"
  unfolding gold_taken_def by metis

lemma gold_taken_collect: "rect (grid s) \<Longrightarrow> gold_taken s (collect_gold s)"
  by (simp add: gold_taken_def collect_gold_rect collect_gold_tile)

lemma gold_taken_same_grid: "rect (grid s) \<Longrightarrow> grid s' = grid s \<Longrightarrow> gold_taken s s'"
  by (simp add: gold_taken_def tile_def)

lemma gold_taken_rect: "gold_taken s s' \<Longrightarrow> rect (grid s')"
  by (simp add: gold_taken_def)

lemma try_move_cases:
  "try_move s dx dy = (False, s) \<or>
   try_move s dx dy = (True, s\<lparr> player := (player s)\<lparr> p_x := p_x (player s) + dx,
                                                     p_y := p_y (player s) + dy \<rparr> \<rparr>)"
  by (simp add: try_move_def Let_def)

lemma move_and_collect_fields [simp]:
  "exit_pos (case try_move s dx dy of (True, s') \<Rightarrow> collect_gold s' | (False, s') \<Rightarrow> s') = exit_pos s"
  "enemies (case try_move s dx dy of (True, s') \<Rightarrow> collect_gold s' | (False, s') \<Rightarrow> s') = enemies s"
  "holes (case try_move s dx dy of (True, s') \<Rightarrow> collect_gold s' | (False, s') \<Rightarrow> s') = holes s"
  "won (case try_move s dx dy of (True, s') \<Rightarrow> collect_gold s' | (False, s') \<Rightarrow> s') = won s"
  "dead (case try_move s dx dy of (True, s') \<Rightarrow> collect_gold s' | (False, s') \<Rightarrow> s') = dead s"
  "countdown (case try_move s dx dy of (True, s') \<Rightarrow> collect_gold s' | (False, s') \<Rightarrow> s') = countdown s"
  "enemy_frame_counter (case try_move s dx dy of (True, s') \<Rightarrow> collect_gold s' | (False, s') \<Rightarrow> s') = enemy_frame_counter s"
  using try_move_cases[of s dx dy] by auto

lemma gold_taken_move_and_collect:
  "rect (grid s) \<Longrightarrow>
   gold_taken s (case try_move s dx dy of (True, s') \<Rightarrow> collect_gold s' | (False, s') \<Rightarrow> s')"
proof -
  assume r: "rect (grid s)"
  let ?m = "s\<lparr> player := (player s)\<lparr> p_x := p_x (player s) + dx, p_y := p_y (player s) + dy \<rparr> \<rparr>"
  have "gold_taken s ?m" using r by (simp add: gold_taken_same_grid)
  moreover have "gold_taken ?m (collect_gold ?m)" using r by (simp add: gold_taken_collect)
  ultimately have "gold_taken s (collect_gold ?m)" by (rule gold_taken_trans)
  then show ?thesis using try_move_cases[of s dx dy] r by (auto simp: gold_taken_refl)
qed

lemma handle_player_move_fields [simp]:
  "exit_pos (handle_player_move s dx dy) = exit_pos s"
  "enemies (handle_player_move s dx dy) = enemies s"
  "holes (handle_player_move s dx dy) = holes s"
  "won (handle_player_move s dx dy) = won s"
  "dead (handle_player_move s dx dy) = dead s"
  "countdown (handle_player_move s dx dy) = countdown s"
  "enemy_frame_counter (handle_player_move s dx dy) = enemy_frame_counter s"
  by (simp_all add: handle_player_move_def Let_def)

lemma handle_player_move_idle:
  "won s \<or> dead s \<or> countdown s > 0 \<Longrightarrow> handle_player_move s dx dy = s"
  by (auto simp: handle_player_move_def)

lemma gold_taken_handle_player_move:
  "rect (grid s) \<Longrightarrow> gold_taken s (handle_player_move s dx dy)"
proof -
  assume r: "rect (grid s)"
  let ?s1 = "if dx \<noteq> 0
             then (case try_move s dx 0 of (True, s') \<Rightarrow> collect_gold s' | (False, s') \<Rightarrow> s')
             else s"
  have g1: "gold_taken s ?s1" using r by (simp add: gold_taken_move_and_collect gold_taken_refl)
  then have r1: "rect (grid ?s1)" by (rule gold_taken_rect)
  have "gold_taken ?s1 (case try_move ?s1 0 dy of (True, s') \<Rightarrow> collect_gold s' | (False, s') \<Rightarrow> s')"
    using r1 by (rule gold_taken_move_and_collect)
  with g1 have g2: "gold_taken s (case try_move ?s1 0 dy of (True, s') \<Rightarrow> collect_gold s' | (False, s') \<Rightarrow> s')"
    by (rule gold_taken_trans)
  show ?thesis
    unfolding handle_player_move_def Let_def
    using g1 g2 r by (auto simp: gold_taken_refl)
qed

lemma grid_ok_gold_taken: "grid_ok s \<Longrightarrow> gold_taken s s' \<Longrightarrow> grid_ok s'"
proof -
  assume a: "grid_ok s" and b: "gold_taken s s'"
  have t: "tile s' x y = tile s x y \<or> tile s' x y = EMPTY" for x y
    using b unfolding gold_taken_def by blast
  have "tile s' x y \<noteq> LADDER" if "8 \<le> y" for x y
    using t[of x y] a that by (auto simp: grid_ok_def)
  moreover have "tile s' 17 y = EMPTY" if "9 \<le> y \<and> y \<le> 15" for y
    using t[of 17 y] a that by (auto simp: grid_ok_def)
  moreover have "rect (grid s')" using b by (rule gold_taken_rect)
  ultimately show ?thesis unfolding grid_ok_def by blast
qed

lemma grid_ok_same_grid: "grid_ok s \<Longrightarrow> grid s' = grid s \<Longrightarrow> grid_ok s'"
  by (simp add: grid_ok_def tile_def)

lemma grid_ok_dig: "grid_ok s \<Longrightarrow> grid_ok (dig s d)"
  by (auto simp: grid_ok_def dig_rect dig_tile)

lemma expiring_clear:
  "holes_clear hs \<Longrightarrow> 9 \<le> y \<Longrightarrow> y \<le> 15 \<Longrightarrow> \<not> expiring hs 17 y"
  by (auto simp: holes_clear_def expiring_def list_ex_iff)

lemma grid_ok_update_holes: "grid_ok s \<Longrightarrow> holes_clear (holes s) \<Longrightarrow> grid_ok (update_holes s)"
  by (auto simp: grid_ok_def update_holes_rect update_holes_tile expiring_clear)

lemma holes_clear_dig: "grid_ok s \<Longrightarrow> holes_clear (holes s) \<Longrightarrow> holes_clear (holes (dig s d))"
  by (auto simp: holes_clear_def dig_holes dig_ok_def grid_ok_def)

lemma holes_clear_update_holes: "holes_clear (holes s) \<Longrightarrow> holes_clear (holes (update_holes s))"
  by (auto simp: holes_clear_def update_holes_holes)

lemma enemy_ok_relocate: "enemy_ok e \<Longrightarrow> enemy_ok (relocate e)"
  by (simp add: enemy_ok_def)

lemma enemies_ok_update_holes:
  "\<forall>e \<in> set (enemies s). enemy_ok e \<Longrightarrow> \<forall>e \<in> set (enemies (update_holes s)). enemy_ok e"
  by (auto simp: update_holes_enemies enemy_ok_relocate)

lemma update_holes_length_enemies [simp]:
  "length (enemies (update_holes s)) = length (enemies s)"
  by (simp add: update_holes_enemies)

lemma try_move_enemy_cases:
  "snd (try_move_enemy s i dx dy) = s \<or>
   (is_walkable (tile s (e_x (enemies s ! i) + dx) (e_y (enemies s ! i) + dy)) \<and>
    \<not> other_enemy_at s i (e_x (enemies s ! i) + dx) (e_y (enemies s ! i) + dy) \<and>
    snd (try_move_enemy s i dx dy) =
      s\<lparr> enemies := (enemies s)[i := (enemies s ! i)\<lparr> e_x := e_x (enemies s ! i) + dx,
                                                      e_y := e_y (enemies s ! i) + dy \<rparr>] \<rparr>)"
  by (simp add: try_move_enemy_eq)

lemma enemies_ok_list_update:
  "\<forall>e \<in> set es. enemy_ok e \<Longrightarrow> enemy_ok e' \<Longrightarrow> \<forall>e \<in> set (es[i := e']). enemy_ok e"
  using set_update_subset_insert[of es i e'] by auto

lemma enemies_ok_try_move:
  assumes "\<forall>e \<in> set (enemies s). enemy_ok e"
    and "enemy_ok ((enemies s ! i)\<lparr> e_x := e_x (enemies s ! i) + dx,
                                     e_y := e_y (enemies s ! i) + dy \<rparr>)"
  shows "\<forall>e \<in> set (enemies (snd (try_move_enemy s i dx dy))). enemy_ok e"
  using try_move_enemy_cases[of s i dx dy]
proof
  assume "snd (try_move_enemy s i dx dy) = s"
  then show ?thesis using assms(1) by simp
next
  assume a: "is_walkable (tile s (e_x (enemies s ! i) + dx) (e_y (enemies s ! i) + dy)) \<and>
    \<not> other_enemy_at s i (e_x (enemies s ! i) + dx) (e_y (enemies s ! i) + dy) \<and>
    snd (try_move_enemy s i dx dy) =
      s\<lparr> enemies := (enemies s)[i := (enemies s ! i)\<lparr> e_x := e_x (enemies s ! i) + dx,
                                                      e_y := e_y (enemies s ! i) + dy \<rparr>] \<rparr>"
  have "\<forall>e \<in> set ((enemies s)[i := (enemies s ! i)\<lparr> e_x := e_x (enemies s ! i) + dx,
                                     e_y := e_y (enemies s ! i) + dy \<rparr>]). enemy_ok e"
    using assms by (rule enemies_ok_list_update)
  then show ?thesis using a by simp
qed

lemma enemy_ok_down: "enemy_ok e \<Longrightarrow> enemy_ok (e\<lparr> e_x := e_x e + 0, e_y := e_y e + 1 \<rparr>)"
  unfolding enemy_ok_def by simp

lemma enemy_ok_side:
  "enemy_ok e \<Longrightarrow> 15 \<le> e_y e \<Longrightarrow> enemy_ok (e\<lparr> e_x := e_x e + dx, e_y := e_y e + 0 \<rparr>)"
  unfolding enemy_ok_def by simp

lemma grid_ok_column: "grid_ok s \<Longrightarrow> 9 \<le> y \<Longrightarrow> y \<le> 15 \<Longrightarrow> tile s 17 y = EMPTY"
  unfolding grid_ok_def by blast

lemma grid_ok_no_ladder: "grid_ok s \<Longrightarrow> 8 \<le> y \<Longrightarrow> tile s x y \<noteq> LADDER"
  unfolding grid_ok_def by blast

lemma gravity_in_column:
  assumes "grid_ok s" "enemy_ok e" "e_y e < 15"
  shows "gravity_applies s (e_x e) (e_y e)"
proof -
  have x: "e_x e = 17" using assms(2,3) unfolding enemy_ok_def by blast
  have y: "9 \<le> e_y e" using assms(2) unfolding enemy_ok_def by blast
  have 1: "tile s 17 (e_y e) = EMPTY"
    using assms(1) y by (rule grid_ok_column) (use assms(3) in simp)
  have 2: "tile s 17 (e_y e + 1) = EMPTY"
    using assms(1) by (rule grid_ok_column) (use y assms(3) in simp_all)
  show ?thesis unfolding x
    by (simp add: gravity_applies_def Let_def is_rope_def is_climbable_def is_solid_def 1 2)
qed

lemma no_ladder_near:
  assumes "grid_ok s" "enemy_ok e"
  shows "\<not> is_climbable (tile s (e_x e) (e_y e))" "\<not> is_climbable (tile s (e_x e) (e_y e - 1))"
    "\<not> is_climbable (tile s (e_x e) (e_y e + 1))"
proof -
  have y: "9 \<le> e_y e" using assms(2) unfolding enemy_ok_def by blast
  show "\<not> is_climbable (tile s (e_x e) (e_y e))"
    unfolding is_climbable_def using assms(1) by (rule grid_ok_no_ladder) (use y in simp)
  show "\<not> is_climbable (tile s (e_x e) (e_y e - 1))"
    unfolding is_climbable_def using assms(1) by (rule grid_ok_no_ladder) (use y in simp)
  show "\<not> is_climbable (tile s (e_x e) (e_y e + 1))"
    unfolding is_climbable_def using assms(1) by (rule grid_ok_no_ladder) (use y in simp)
qed

lemma chase_policy_no_ladder:
  "\<not> is_climbable here \<Longrightarrow> \<not> is_climbable up \<Longrightarrow> \<not> is_climbable down \<Longrightarrow>
   chase_policy_spec ep pp here up down = None \<or>
   chase_policy_spec ep pp here up down = Some (- 1, 0) \<or>
   chase_policy_spec ep pp here up down = Some (1, 0)"
  by (simp add: chase_policy_spec_def)

lemma enemies_ok_ai_step:
  assumes g: "grid_ok s" and es: "\<forall>e \<in> set (enemies s). enemy_ok e"
    and i: "i < length (enemies s)"
    and ng: "\<not> gravity_applies s (e_x (enemies s ! i)) (e_y (enemies s ! i))"
  shows "\<forall>e \<in> set (enemies (enemy_ai_step s i)). enemy_ok e"
proof -
  let ?e = "enemies s ! i"
  have ok: "enemy_ok ?e" using es i by simp
  have y15: "15 \<le> e_y ?e"
  proof (rule ccontr)
    assume "\<not> 15 \<le> e_y ?e"
    then have "e_y ?e < 15" by simp
    from gravity_in_column[OF g ok this] ng show False by simp
  qed
  have side: "\<forall>e \<in> set (enemies (snd (try_move_enemy s i dx 0))). enemy_ok e" for dx
  proof (rule enemies_ok_try_move[OF es])
    show "enemy_ok (?e\<lparr>e_x := e_x ?e + dx, e_y := e_y ?e + 0\<rparr>)"
      using ok y15 by (rule enemy_ok_side)
  qed
  let ?c = "chase_policy_spec (e_x ?e, e_y ?e) (p_x (player s), p_y (player s))
      (tile s (e_x ?e) (e_y ?e)) (tile s (e_x ?e) (e_y ?e - 1)) (tile s (e_x ?e) (e_y ?e + 1))"
  have "?c = None \<or> ?c = Some (- 1, 0) \<or> ?c = Some (1, 0)"
    using no_ladder_near[OF g ok] by (intro chase_policy_no_ladder)
  then show ?thesis
  proof (elim disjE)
    assume "?c = None"
    then have "enemy_ai_step s i = s" by (simp add: enemy_ai_step_policy)
    then show ?thesis using es by simp
  next
    assume "?c = Some (- 1, 0)"
    then have "enemy_ai_step s i = snd (try_move_enemy s i (- 1) 0)"
      by (simp add: enemy_ai_step_policy)
    then show ?thesis using side[of "- 1"] by simp
  next
    assume "?c = Some (1, 0)"
    then have "enemy_ai_step s i = snd (try_move_enemy s i 1 0)"
      by (simp add: enemy_ai_step_policy)
    then show ?thesis using side[of 1] by simp
  qed
qed

lemma enemies_ok_turn:
  assumes g: "grid_ok s" and es: "\<forall>e \<in> set (enemies s). enemy_ok e"
    and i: "i < length (enemies s)"
  shows "\<forall>e \<in> set (enemies (enemy_turn s i)). enemy_ok e"
proof (cases "gravity_applies s (e_x (enemies s ! i)) (e_y (enemies s ! i))")
  case True
  have ok: "enemy_ok (enemies s ! i)" using es i by simp
  have "\<forall>e \<in> set (enemies (snd (try_move_enemy s i 0 1))). enemy_ok e"
  proof (rule enemies_ok_try_move[OF es])
    show "enemy_ok ((enemies s ! i)\<lparr>e_x := e_x (enemies s ! i) + 0, e_y := e_y (enemies s ! i) + 1\<rparr>)"
      using ok by (rule enemy_ok_down)
  qed
  then show ?thesis using True by (simp add: enemy_turn_def)
next
  case False
  then show ?thesis using enemies_ok_ai_step[OF g es i] by (simp add: enemy_turn_def)
qed

lemma grid_ok_enemy_turn: "grid_ok s \<Longrightarrow> grid_ok (enemy_turn s i)"
  by (erule grid_ok_same_grid) simp

lemma enemies_ok_foldl:
  "grid_ok s \<Longrightarrow> \<forall>e \<in> set (enemies s). enemy_ok e \<Longrightarrow> \<forall>i \<in> set js. i < length (enemies s) \<Longrightarrow>
   \<forall>e \<in> set (enemies (foldl enemy_turn s js)). enemy_ok e"
proof (induction js arbitrary: s)
  case Nil
  then show ?case by simp
next
  case (Cons j js)
  have 1: "grid_ok (enemy_turn s j)" using Cons.prems(1) by (rule grid_ok_enemy_turn)
  have "j < length (enemies s)" using Cons.prems(3) by simp
  then have 2: "\<forall>e \<in> set (enemies (enemy_turn s j)). enemy_ok e"
    by (rule enemies_ok_turn[OF Cons.prems(1,2)])
  have 3: "\<forall>i \<in> set js. i < length (enemies (enemy_turn s j))" using Cons.prems(3) by simp
  show ?case using Cons.IH[OF 1 2 3] by simp
qed

lemma enemies_ok_move_enemies:
  assumes "grid_ok s" "\<forall>e \<in> set (enemies s). enemy_ok e"
  shows "\<forall>e \<in> set (enemies (move_enemies s)). enemy_ok e"
proof -
  let ?s1 = "s\<lparr> enemy_frame_counter := 0 \<rparr>"
  have "grid_ok ?s1" using assms(1) by (simp add: grid_ok_def)
  moreover have "\<forall>e \<in> set (enemies ?s1). enemy_ok e" using assms(2) by simp
  ultimately have "\<forall>e \<in> set (enemies (foldl enemy_turn ?s1 [0..<length (enemies ?s1)])). enemy_ok e"
    by (rule enemies_ok_foldl) simp
  then show ?thesis using assms(2) by (simp add: move_enemies_def Let_def)
qed

section \<open>The level invariant is kept by every operation\<close>

lemma level_rows_no_ladder:
  fixes k :: nat
  assumes "8 \<le> k" "k < 17"
  shows "LADDER \<notin> set (level_grid ! k)"
proof -
  from assms have "k = 8 \<or> k = 9 \<or> k = 10 \<or> k = 11 \<or> k = 12 \<or> k = 13 \<or> k = 14 \<or>
    k = 15 \<or> k = 16" by arith
  then show ?thesis by (elim disjE) (simp_all add: level_grid_eq)
qed

lemma level_column_empty:
  fixes y :: int
  assumes "9 \<le> y" "y \<le> 15"
  shows "tile_at level_grid 17 y = EMPTY"
proof -
  from assms have "y = 9 \<or> y = 10 \<or> y = 11 \<or> y = 12 \<or> y = 13 \<or> y = 14 \<or> y = 15" by arith
  then show ?thesis
    by (elim disjE) (simp_all add: tile_at_def in_bounds_def level_grid_eq)
qed

lemma level_no_ladder:
  assumes "8 \<le> y"
  shows "tile_at level_grid x y \<noteq> LADDER"
proof (cases "in_bounds level_grid x y")
  case False
  then show ?thesis by (simp add: tile_at_def)
next
  case True
  then have y: "nat y < 17" "8 \<le> nat y" and x: "nat x < 20" using assms
    by (auto simp: level_in_bounds)
  have "LADDER \<notin> set (level_grid ! nat y)" using y(2,1) by (rule level_rows_no_ladder)
  moreover have "level_grid ! nat y \<in> set level_grid" using y(1) level_dims(1) by simp
  then have "length (level_grid ! nat y) = 20" using level_dims(2) by blast
  then have "level_grid ! nat y ! nat x \<in> set (level_grid ! nat y)" using x by simp
  ultimately show ?thesis using True by (auto simp: tile_at_def)
qed

lemma level_grid_ok: "grid s = level_grid \<Longrightarrow> grid_ok s"
  unfolding grid_ok_def tile_def
  using level_no_ladder level_column_empty level_rect by simp

lemma level_inv_reset: "level_inv reset"
  unfolding level_inv_def
  by (simp add: level_grid_ok reset_fields holes_clear_def enemy_ok_def)

lemma level_inv_dig: "level_inv s \<Longrightarrow> level_inv (dig s d)"
  unfolding level_inv_def by (simp add: grid_ok_dig holes_clear_dig)

lemma level_inv_gold_taken:
  assumes "level_inv s" "gold_taken s s'" "holes s' = holes s" "exit_pos s' = exit_pos s"
    "enemies s' = enemies s"
  shows "level_inv s'"
proof -
  have "grid_ok s" using assms(1) by (simp add: level_inv_def)
  then have "grid_ok s'" using assms(2) by (rule grid_ok_gold_taken)
  then show ?thesis using assms(1,3,4,5) by (simp add: level_inv_def)
qed

lemma level_inv_same_grid:
  assumes "level_inv s" "grid s' = grid s" "holes s' = holes s" "exit_pos s' = exit_pos s"
    "enemies s' = enemies s"
  shows "level_inv s'"
proof -
  have "grid_ok s" using assms(1) by (simp add: level_inv_def)
  then have "grid_ok s'" using assms(2) by (rule grid_ok_same_grid)
  then show ?thesis using assms(1,3,4,5) by (simp add: level_inv_def)
qed

lemma level_inv_rect: "level_inv s \<Longrightarrow> rect (grid s)"
  by (simp add: level_inv_def grid_ok_def)

lemma level_inv_handle_player_move:
  assumes "level_inv s"
  shows "level_inv (handle_player_move s dx dy)"
proof -
  have "rect (grid s)" using assms by (rule level_inv_rect)
  then have "gold_taken s (handle_player_move s dx dy)" by (rule gold_taken_handle_player_move)
  with assms show ?thesis by (rule level_inv_gold_taken) simp_all
qed

lemma level_inv_update_holes:
  assumes "level_inv s"
  shows "level_inv (update_holes s)"
proof -
  have g: "grid_ok s" and h: "holes_clear (holes s)" and e: "\<forall>e \<in> set (enemies s). enemy_ok e"
    using assms by (simp_all add: level_inv_def)
  have "grid_ok (update_holes s)" using g h by (rule grid_ok_update_holes)
  moreover have "holes_clear (holes (update_holes s))" using h by (rule holes_clear_update_holes)
  moreover have "\<forall>e \<in> set (enemies (update_holes s)). enemy_ok e"
    using e by (rule enemies_ok_update_holes)
  ultimately show ?thesis using assms by (simp add: level_inv_def)
qed

lemma level_inv_before_entities:
  assumes "level_inv s"
  shows "level_inv (before_entities s)"
proof -
  have "level_inv (s\<lparr> countdown := countdown s - 1 \<rparr>)"
    using assms by (rule level_inv_same_grid) simp_all
  then have "level_inv (if countdown s > 0 then s\<lparr> countdown := countdown s - 1 \<rparr> else s)"
    using assms by simp
  then show ?thesis unfolding before_entities_def by (rule level_inv_update_holes)
qed

lemma gold_taken_win_point: "rect (grid s) \<Longrightarrow> gold_taken s (win_point s)"
proof -
  assume r: "rect (grid s)"
  have "gold_taken s (player_gravity s)" using r by (simp add: gold_taken_same_grid)
  moreover have "gold_taken (player_gravity s) (collect_gold (player_gravity s))"
    using r by (simp add: gold_taken_collect)
  ultimately show ?thesis unfolding win_point_def by (rule gold_taken_trans)
qed

lemma level_inv_win_point:
  assumes "level_inv s"
  shows "level_inv (win_point s)"
proof -
  have "rect (grid s)" using assms by (rule level_inv_rect)
  then have "gold_taken s (win_point s)" by (rule gold_taken_win_point)
  with assms show ?thesis by (rule level_inv_gold_taken) simp_all
qed

lemma level_inv_move_enemies:
  assumes "level_inv s"
  shows "level_inv (move_enemies s)"
proof -
  have g: "grid_ok s" and e: "\<forall>e \<in> set (enemies s). enemy_ok e"
    using assms by (simp_all add: level_inv_def)
  have "grid_ok (move_enemies s)" using g by (rule grid_ok_same_grid) simp
  moreover have "\<forall>e \<in> set (enemies (move_enemies s)). enemy_ok e"
    using g e by (rule enemies_ok_move_enemies)
  ultimately show ?thesis using assms by (simp add: level_inv_def)
qed

lemma level_inv_check_win: "level_inv s \<Longrightarrow> level_inv (check_win s)"
  by (erule level_inv_same_grid) simp_all

lemma level_inv_check_collision: "level_inv s \<Longrightarrow> level_inv (check_collision s)"
  by (erule level_inv_same_grid) simp_all

lemma level_inv_update_entities:
  assumes "level_inv s"
  shows "level_inv (update_entities s)"
proof (cases "won s \<or> dead s \<or> countdown s > 0")
  case True
  then show ?thesis using assms by (simp add: update_entities_idle)
next
  case False
  then have "update_entities s = check_collision (move_enemies (check_win (win_point s)))"
    by (simp add: update_entities_running)
  then show ?thesis
    using assms
    by (simp add: level_inv_check_collision level_inv_move_enemies level_inv_check_win
        level_inv_win_point)
qed

lemma level_inv_step: "level_inv s \<Longrightarrow> level_inv (step s)"
  unfolding step_eq by (intro level_inv_update_entities level_inv_before_entities)

section \<open>The flags and the starting countdown\<close>

lemma flags_inv_reset: "flags_inv reset"
  by (simp add: flags_inv_def reset_fields)

lemma flags_inv_same:
  "flags_inv s \<Longrightarrow> won s' = won s \<Longrightarrow> dead s' = dead s \<Longrightarrow> countdown s' = countdown s \<Longrightarrow>
   flags_inv s'"
  by (simp add: flags_inv_def)

lemma enemy_not_at_exit: "enemy_ok e \<Longrightarrow> (e_x e, e_y e) \<noteq> (13, 11)"
  unfolding enemy_ok_def by auto

lemma won_dead_exclusive:
  assumes l: "level_inv s" and r: "\<not> won s" "\<not> dead s" "countdown s \<le> 0"
  shows "\<not> (won (update_entities s) \<and> dead (update_entities s))"
proof
  let ?s4 = "move_enemies (check_win (win_point s))"
  assume a: "won (update_entities s) \<and> dead (update_entities s)"
  have ue: "update_entities s = check_collision ?s4"
    using r by (simp add: update_entities_running)
  have w: "won (check_win (win_point s))" using a ue by simp
  then have p: "(p_x (player (win_point s)), p_y (player (win_point s))) = exit_pos s"
    using r by (simp add: check_win_won)
  have ex: "exit_pos s = (13, 11)" using l by (simp add: level_inv_def)
  have "collides ?s4" using a ue r by (simp add: check_collision_dead)
  then obtain e where e: "e \<in> set (enemies ?s4)"
    "(e_x e, e_y e) = (p_x (player ?s4), p_y (player ?s4))"
    by (auto simp: collides_iff)
  have "level_inv ?s4"
    using l by (intro level_inv_move_enemies level_inv_check_win level_inv_win_point)
  then have "enemy_ok e" using e(1) by (simp add: level_inv_def)
  then have "(e_x e, e_y e) \<noteq> (13, 11)" by (rule enemy_not_at_exit)
  then show False using e(2) p ex by simp
qed

lemma update_entities_countdown [simp]: "countdown (update_entities s) = countdown s"
  by (simp add: update_entities_def)

lemma flags_inv_update_entities:
  assumes "level_inv s" "flags_inv s"
  shows "flags_inv (update_entities s)"
proof (cases "won s \<or> dead s \<or> countdown s > 0")
  case True
  then show ?thesis using assms(2) by (simp add: update_entities_idle)
next
  case False
  then have r: "\<not> won s" "\<not> dead s" "countdown s \<le> 0" by auto
  have "\<not> (won (update_entities s) \<and> dead (update_entities s))"
    using assms(1) r by (rule won_dead_exclusive)
  then show ?thesis using assms(2) r by (simp add: flags_inv_def)
qed

lemma flags_inv_before_entities: "flags_inv s \<Longrightarrow> flags_inv (before_entities s)"
  by (auto simp: flags_inv_def)

lemma flags_inv_step: "level_inv s \<Longrightarrow> flags_inv s \<Longrightarrow> flags_inv (step s)"
  unfolding step_eq
  by (intro flags_inv_update_entities level_inv_before_entities flags_inv_before_entities)

lemma starting_inv_reset: "starting_inv reset"
  by (simp add: starting_inv_def reset_fields tile_def tile_at_def in_bounds_def level_grid_eq)

lemma starting_inv_dig:
  assumes "starting_inv s" "rect (grid s)" "d \<noteq> 0"
  shows "starting_inv (dig s d)"
proof (cases "0 < countdown s")
  case False
  then show ?thesis by (simp add: starting_inv_def)
next
  case True
  then have p: "p_x (player s) = 11" and t: "tile s 11 16 = BRICK"
    using assms(1) by (simp_all add: starting_inv_def)
  have "tile (dig s d) 11 16 = BRICK"
    using assms(2,3) p t by (simp add: dig_tile)
  then show ?thesis using assms(1) True by (simp add: starting_inv_def)
qed

lemma starting_inv_handle_player_move:
  "starting_inv s \<Longrightarrow> starting_inv (handle_player_move s dx dy)"
  by (cases "0 < countdown s") (simp_all add: handle_player_move_idle starting_inv_def)

lemma relocate_at_respawn: "(e_x e, e_y e) = respawn e \<Longrightarrow> relocate e = e"
  by (cases e) (auto simp: relocate_def)

lemma starting_inv_step:
  assumes "starting_inv s" "rect (grid s)"
  shows "starting_inv (step s)"
proof (cases "1 < countdown s")
  case False
  then have "\<not> 0 < countdown (step s)" by (simp add: step_eq)
  then show ?thesis by (simp add: starting_inv_def)
next
  case True
  let ?s0 = "s\<lparr> countdown := countdown s - 1 \<rparr>"
  have b: "before_entities s = update_holes ?s0" using True by (simp add: before_entities_def)
  have st: "step s = before_entities s"
    using True by (simp add: step_eq update_entities_idle)
  have a: "p_x (player s) = 11" "p_y (player s) = 15"
    "\<forall>e \<in> set (enemies s). (e_x e, e_y e) = respawn e"
    "enemy_frame_counter s = 0" "tile s 11 16 = BRICK"
    using assms(1) True by (simp_all add: starting_inv_def)
  have es: "enemies (update_holes ?s0) = enemies s"
    using a(3) by (simp add: update_holes_enemies relocate_at_respawn map_idI)
  have "rect (grid ?s0)" using assms(2) by simp
  then have "tile (update_holes ?s0) 11 16 = (if expiring (holes ?s0) 11 16 then BRICK else tile ?s0 11 16)"
    by (rule update_holes_tile)
  then have t: "tile (update_holes ?s0) 11 16 = BRICK" using a(5) by simp
  show ?thesis
    unfolding st b starting_inv_def using a es t by simp
qed

section \<open>The hole invariant and the invariant of reachable states\<close>

lemma holes_inv_reset: "holes_inv reset"
  by (simp add: holes_inv_def reset_fields)

lemma inside_cong: "(\<And>x y. in_bounds (grid s') x y = in_bounds (grid s) x y) \<Longrightarrow> inside s' = inside s"
  by (rule ext) (simp add: inside_def)

lemma holes_inv_gold_taken:
  assumes "holes_inv s" "gold_taken s s'" "holes s' = holes s"
  shows "holes_inv s'"
proof -
  have i: "inside s' = inside s" using assms(2) by (intro inside_cong) (simp add: gold_taken_def)
  have t: "tile s' x y = EMPTY" if "tile s x y = EMPTY" for x y
    using assms(2) that unfolding gold_taken_def by (metis tile.distinct(7))
  show ?thesis using assms(1,3) i t by (simp add: holes_inv_def)
qed

lemma holes_inv_same_grid:
  "holes_inv s \<Longrightarrow> grid s' = grid s \<Longrightarrow> holes s' = holes s \<Longrightarrow> holes_inv s'"
  by (simp add: holes_inv_def inside_def[abs_def] tile_def)

lemma holes_inv_dig:
  assumes h: "holes_inv s" and r: "rect (grid s)"
  shows "holes_inv (dig s d)"
proof (cases "dig_ok s d")
  case False
  then have "dig s d = s" by (simp add: dig_eq)
  then show ?thesis using h by simp
next
  case True
  let ?tx = "p_x (player s) + d" and ?ty = "p_y (player s) + 1"
  let ?new = "\<lparr> h_x = ?tx, h_y = ?ty, timer = HOLE_REGEN_FRAMES \<rparr>"
  have i: "inside (dig s d) = inside s" by (intro inside_cong) simp
  have hs: "holes (dig s d) = holes s @ [?new]" using True by (simp add: dig_holes)
  have tb: "tile s ?tx ?ty = BRICK" using True by (simp add: dig_ok_def)
  have t: "tile (dig s d) x y = (if in_bounds (grid s) ?tx ?ty \<and> x = ?tx \<and> y = ?ty then EMPTY else tile s x y)"
    for x y using r True by (simp add: dig_tile)
  have old: "tile s (h_x k) (h_y k) = EMPTY" if "k \<in> set (holes s)" "inside s k" for k
    using h that by (simp add: holes_inv_def)
  have fresh: "cell ?new \<notin> cell ` set (filter (inside s) (holes s))"
  proof
    assume "cell ?new \<in> cell ` set (filter (inside s) (holes s))"
    then obtain k where k: "k \<in> set (holes s)" "inside s k" "cell k = cell ?new" by auto
    then have "tile s (h_x k) (h_y k) = EMPTY" using old by simp
    then show False using k(3) tb by (simp add: cell_def)
  qed
  have d: "distinct (map cell (filter (inside s) (holes s)))" using h by (simp add: holes_inv_def)
  have 1: "distinct (map cell (filter (inside (dig s d)) (holes (dig s d))))"
    unfolding i hs using d fresh by simp
  have 2: "tile (dig s d) (h_x k) (h_y k) = EMPTY"
    if "k \<in> set (holes (dig s d))" "inside (dig s d) k" for k
  proof (cases "k = ?new")
    case True
    then show ?thesis using that(2) t[of ?tx ?ty] by (simp add: i inside_def)
  next
    case False
    then have "k \<in> set (holes s)" using that(1) hs by simp
    then have "tile s (h_x k) (h_y k) = EMPTY" using that(2) old by (simp add: i)
    then show ?thesis by (simp add: t)
  qed
  show ?thesis unfolding holes_inv_def using 1 2 by blast
qed

lemma holes_inv_update_holes:
  assumes h: "holes_inv s" and r: "rect (grid s)"
  shows "holes_inv (update_holes s)"
proof -
  let ?dec = "\<lambda>h. h\<lparr> timer := timer h - 1 \<rparr>"
  have i: "inside (update_holes s) = inside s" by (intro inside_cong) simp
  have hs: "holes (update_holes s) = map ?dec (filter (\<lambda>h. 1 < timer h) (holes s))"
    by (rule update_holes_holes)
  have f: "filter (inside s) (map ?dec xs) = map ?dec (filter (inside s) xs)" for xs
    by (induction xs) (simp_all add: inside_def)
  have c: "map cell (map ?dec xs) = map cell xs" for xs
    by (simp add: cell_def)
  have d: "distinct (map cell (filter (inside s) (holes s)))" using h by (simp add: holes_inv_def)
  have sw: "filter (inside s) (filter (\<lambda>h. 1 < timer h) (holes s)) =
        filter (\<lambda>h. 1 < timer h) (filter (inside s) (holes s))"
    by (simp add: conj_commute)
  have "distinct (map cell (filter (\<lambda>h. 1 < timer h) (filter (inside s) (holes s))))"
    using d by (rule distinct_map_filter)
  then have 1: "distinct (map cell (filter (inside (update_holes s)) (holes (update_holes s))))"
    unfolding i hs f c sw .
  have 2: "tile (update_holes s) (h_x k) (h_y k) = EMPTY"
    if k: "k \<in> set (holes (update_holes s))" "inside (update_holes s) k" for k
  proof -
    from k(1) obtain k0 where k0: "k0 \<in> set (holes s)" "1 < timer k0" "k = ?dec k0"
      unfolding hs by auto
    have in0: "inside s k0" using k(2) k0(3) by (simp add: i inside_def)
    have e0: "tile s (h_x k0) (h_y k0) = EMPTY" using h k0(1) in0 by (simp add: holes_inv_def)
    have "\<not> expiring (holes s) (h_x k0) (h_y k0)"
    proof
      assume "expiring (holes s) (h_x k0) (h_y k0)"
      then obtain k1 where k1: "k1 \<in> set (holes s)" "timer k1 \<le> 1" "h_x k1 = h_x k0" "h_y k1 = h_y k0"
        by (auto simp: expiring_def list_ex_iff)
      have "inside s k1" using in0 k1 by (simp add: inside_def)
      then have m: "k1 \<in> set (filter (inside s) (holes s))" "k0 \<in> set (filter (inside s) (holes s))"
        using k1(1) k0(1) in0 by simp_all
      have "inj_on cell (set (filter (inside s) (holes s)))"
        using d by (simp add: distinct_map)
      moreover have "cell k1 = cell k0" using k1 by (simp add: cell_def)
      ultimately have "k1 = k0" using m by (meson inj_onD)
      then show False using k1(2) k0(2) by simp
    qed
    then have "tile (update_holes s) (h_x k0) (h_y k0) = EMPTY"
      using r e0 by (simp add: update_holes_tile)
    then show ?thesis using k0(3) by simp
  qed
  show ?thesis unfolding holes_inv_def using 1 2 by blast
qed

lemma holes_inv_handle_player_move:
  assumes "holes_inv s" "rect (grid s)"
  shows "holes_inv (handle_player_move s dx dy)"
proof -
  have "gold_taken s (handle_player_move s dx dy)"
    using assms(2) by (rule gold_taken_handle_player_move)
  with assms(1) show ?thesis by (rule holes_inv_gold_taken) simp
qed

lemma holes_inv_before_entities:
  assumes "holes_inv s" "rect (grid s)"
  shows "holes_inv (before_entities s)"
proof -
  let ?s0 = "if countdown s > 0 then s\<lparr> countdown := countdown s - 1 \<rparr> else s"
  have "holes_inv (s\<lparr> countdown := countdown s - 1 \<rparr>)"
    using assms(1) by (rule holes_inv_same_grid) simp_all
  then have "holes_inv ?s0" using assms(1) by simp
  moreover have "rect (grid ?s0)" using assms(2) by simp
  ultimately show ?thesis unfolding before_entities_def by (rule holes_inv_update_holes)
qed

lemma update_entities_holes [simp]: "holes (update_entities s) = holes s"
  by (simp add: update_entities_def)

lemma gold_taken_update_entities:
  assumes "rect (grid s)"
  shows "gold_taken s (update_entities s)"
proof (cases "won s \<or> dead s \<or> countdown s > 0")
  case True
  then show ?thesis using assms by (simp add: update_entities_idle gold_taken_refl)
next
  case False
  then have ue: "update_entities s = check_collision (move_enemies (check_win (win_point s)))"
    by (simp add: update_entities_running)
  have 1: "gold_taken s (win_point s)" using assms by (rule gold_taken_win_point)
  then have "rect (grid (win_point s))" by (rule gold_taken_rect)
  then have "gold_taken (win_point s) (check_collision (move_enemies (check_win (win_point s))))"
    by (rule gold_taken_same_grid) simp
  with 1 show ?thesis unfolding ue by (rule gold_taken_trans)
qed

lemma holes_inv_update_entities:
  assumes "holes_inv s" "rect (grid s)"
  shows "holes_inv (update_entities s)"
proof -
  have "gold_taken s (update_entities s)" using assms(2) by (rule gold_taken_update_entities)
  with assms(1) show ?thesis by (rule holes_inv_gold_taken) simp
qed

lemma before_entities_rect: "rect (grid s) \<Longrightarrow> rect (grid (before_entities s))"
  unfolding before_entities_def by (rule update_holes_rect) simp

lemma holes_inv_step:
  assumes "holes_inv s" "rect (grid s)"
  shows "holes_inv (step s)"
  unfolding step_eq
  using assms by (intro holes_inv_update_entities holes_inv_before_entities before_entities_rect)

lemma inv_reset: "inv reset"
  unfolding inv_def
  by (intro conjI level_inv_reset flags_inv_reset starting_inv_reset holes_inv_reset)

lemma inv_dig:
  assumes "inv s" "d \<noteq> 0"
  shows "inv (dig s d)"
proof -
  have l: "level_inv s" and f: "flags_inv s" and st: "starting_inv s" and h: "holes_inv s"
    using assms(1) by (simp_all add: inv_def)
  have r: "rect (grid s)" using l by (rule level_inv_rect)
  have "level_inv (dig s d)" using l by (rule level_inv_dig)
  moreover have "flags_inv (dig s d)" using f by (rule flags_inv_same) simp_all
  moreover have "starting_inv (dig s d)" using st r assms(2) by (rule starting_inv_dig)
  moreover have "holes_inv (dig s d)" using h r by (rule holes_inv_dig)
  ultimately show ?thesis by (simp add: inv_def)
qed

lemma inv_handle_player_move:
  assumes "inv s"
  shows "inv (handle_player_move s dx dy)"
proof -
  have l: "level_inv s" and f: "flags_inv s" and st: "starting_inv s" and h: "holes_inv s"
    using assms(1) by (simp_all add: inv_def)
  have r: "rect (grid s)" using l by (rule level_inv_rect)
  have "level_inv (handle_player_move s dx dy)" using l by (rule level_inv_handle_player_move)
  moreover have "flags_inv (handle_player_move s dx dy)" using f by (rule flags_inv_same) simp_all
  moreover have "starting_inv (handle_player_move s dx dy)"
    using st by (rule starting_inv_handle_player_move)
  moreover have "holes_inv (handle_player_move s dx dy)"
    using h r by (rule holes_inv_handle_player_move)
  ultimately show ?thesis by (simp add: inv_def)
qed

lemma inv_step:
  assumes "inv s"
  shows "inv (step s)"
proof -
  have l: "level_inv s" and f: "flags_inv s" and st: "starting_inv s" and h: "holes_inv s"
    using assms(1) by (simp_all add: inv_def)
  have r: "rect (grid s)" using l by (rule level_inv_rect)
  have "level_inv (step s)" using l by (rule level_inv_step)
  moreover have "flags_inv (step s)" using l f by (rule flags_inv_step)
  moreover have "starting_inv (step s)" using st r by (rule starting_inv_step)
  moreover have "holes_inv (step s)" using h r by (rule holes_inv_step)
  ultimately show ?thesis by (simp add: inv_def)
qed

lemma inv_apply_event: "inv s \<Longrightarrow> inv (apply_event s ev)"
  by (cases ev) (simp_all add: inv_reset inv_dig inv_handle_player_move inv_step)

lemma reachable_inv: "reachable s \<Longrightarrow> inv s"
  by (induction rule: reachable.induct) (simp_all add: inv_reset inv_apply_event)

lemma foldl_apply_event_reachable: "reachable s \<Longrightarrow> reachable (foldl apply_event s evs)"
  by (induction evs arbitrary: s) (simp_all add: reachable_event)

lemma reachable_run: "reachable (run evs)"
  unfolding run_def by (rule foldl_apply_event_reachable) (rule reachable_reset)

section \<open>Runs of the engine through the starting countdown\<close>

lemma update_holes_no_holes: "holes s = [] \<Longrightarrow> update_holes s = s"
  by (simp add: update_holes_def)

lemma step_waiting: "1 < c \<Longrightarrow> step (waiting c) = waiting (c - 1)"
  by (simp add: step_eq before_entities_def waiting_def update_holes_no_holes reset_fields
      update_entities_idle)

lemma waiting_fields:
  "grid (waiting c) = level_grid" "player (waiting c) = \<lparr> p_x = 11, p_y = 15, gold = 0 \<rparr>"
  "enemies (waiting c) = [\<lparr> e_x = 17, e_y = 9, respawn = (17, 9) \<rparr>]"
  "holes (waiting c) = []" "won (waiting c) = False" "dead (waiting c) = False"
  "countdown (waiting c) = c" "enemy_frame_counter (waiting c) = 0"
  "exit_pos (waiting c) = (13, 11)"
  by (simp_all add: waiting_def reset_fields)

lemma quiet_fields:
  "grid (quiet c) = level_grid" "player (quiet c) = \<lparr> p_x = 11, p_y = 15, gold = 0 \<rparr>"
  "enemies (quiet c) = [\<lparr> e_x = 17, e_y = 9, respawn = (17, 9) \<rparr>]"
  "holes (quiet c) = []" "won (quiet c) = False" "dead (quiet c) = False"
  "countdown (quiet c) = 0" "enemy_frame_counter (quiet c) = c"
  "exit_pos (quiet c) = (13, 11)"
  by (simp_all add: quiet_def reset_fields)

lemma tile_quiet: "tile (quiet c) x y = tile_at level_grid x y"
  by (simp add: tile_def quiet_fields)

lemma tile_waiting: "tile (waiting c) x y = tile_at level_grid x y"
  by (simp add: tile_def waiting_fields)

lemma level_gold: "any_gold_left level_grid"
  by (simp add: any_gold_left_def level_grid_eq)

lemma level_tiles:
  "tile_at level_grid 11 15 = EMPTY" "tile_at level_grid 11 16 = BRICK"
  "tile_at level_grid 17 9 = EMPTY" "tile_at level_grid 17 10 = EMPTY"
  "tile_at level_grid 12 15 = EMPTY" "tile_at level_grid 12 16 = BRICK"
  "tile_at level_grid 13 15 = EMPTY" "tile_at level_grid 13 16 = BRICK"
  "tile_at level_grid 13 17 = BRICK" "tile_at level_grid 12 17 = BRICK"
  by (simp_all add: tile_at_def in_bounds_def level_grid_eq)

lemma win_point_quiet: "win_point (quiet c) = quiet c"
  by (simp add: win_point_def player_gravity_def gravity_applies_def Let_def tile_quiet
      quiet_fields level_tiles is_rope_def is_climbable_def is_solid_def collect_gold_def)

lemma check_win_quiet: "check_win (quiet c) = quiet c"
  by (simp add: check_win_def quiet_fields level_gold)

lemma quiet_upd: "(quiet c)\<lparr> enemy_frame_counter := c' \<rparr> = quiet c'"
  by (simp add: quiet_def)

lemma step_quiet: "c + 1 < 10 \<Longrightarrow> step (quiet c) = quiet (c + 1)"
  by (simp add: step_eq before_entities_def update_holes_no_holes quiet_fields
      update_entities_running win_point_quiet check_win_quiet move_enemies_def Let_def
      ENEMY_MOVE_INTERVAL_def quiet_upd check_collision_def collides_def)

lemma step_waiting_1: "step (waiting 1) = quiet 1"
proof -
  have "before_entities (waiting 1) = quiet 0"
    by (simp add: before_entities_def waiting_def quiet_def update_holes_no_holes reset_fields)
  then show ?thesis
    by (simp add: step_eq update_entities_running quiet_fields win_point_quiet check_win_quiet
        move_enemies_def Let_def ENEMY_MOVE_INTERVAL_def quiet_upd check_collision_def
        collides_def)
qed

lemma foldl_replicate_Suc:
  "foldl f s (replicate (Suc n) x) = f (foldl f s (replicate n x)) x"
proof -
  have "replicate (Suc n) x = replicate n x @ [x]" by (simp add: replicate_append_same)
  then show ?thesis by (simp only: foldl_append foldl.simps)
qed

lemma ticks_waiting:
  "int n < c \<Longrightarrow> foldl apply_event (waiting c) (replicate n Tick) = waiting (c - int n)"
proof (induction n)
  case 0
  then show ?case by simp
next
  case (Suc n)
  have "foldl apply_event (waiting c) (replicate (Suc n) Tick) =
        step (foldl apply_event (waiting c) (replicate n Tick))"
    by (simp only: foldl_replicate_Suc apply_event.simps)
  also have "\<dots> = step (waiting (c - int n))" using Suc by simp
  also have "\<dots> = waiting (c - int n - 1)" using Suc.prems by (intro step_waiting) simp
  finally show ?case by (simp add: algebra_simps)
qed

lemma ticks_quiet:
  "c + int n < 10 \<Longrightarrow> foldl apply_event (quiet c) (replicate n Tick) = quiet (c + int n)"
proof (induction n)
  case 0
  then show ?case by simp
next
  case (Suc n)
  have "foldl apply_event (quiet c) (replicate (Suc n) Tick) =
        step (foldl apply_event (quiet c) (replicate n Tick))"
    by (simp only: foldl_replicate_Suc apply_event.simps)
  also have "\<dots> = step (quiet (c + int n))" using Suc by simp
  also have "\<dots> = quiet (c + int n + 1)" using Suc.prems by (intro step_quiet) simp
  finally show ?case by (simp add: algebra_simps)
qed

lemma reset_waiting: "reset = waiting 300"
  by (simp add: waiting_def reset_def parse_level_LEVEL_STR)

lemma run_append: "run (evs @ evs') = foldl apply_event (run evs) evs'"
  by (simp add: run_def)

lemma run_299: "run (replicate 299 Tick) = waiting 1"
  unfolding run_def reset_waiting using ticks_waiting[of 299 300] by simp

lemma run_300: "run (replicate 300 Tick) = quiet 1"
proof -
  have "replicate 300 Tick = replicate 299 Tick @ [Tick]"
    using replicate_add[of 299 1 Tick] by simp
  then show ?thesis by (simp add: run_append run_299 step_waiting_1)
qed

lemma run_308: "run (replicate 300 Tick @ replicate 8 Tick) = quiet 9"
  using ticks_quiet[of 1 8] by (simp add: run_append run_300)

section \<open>Hole timers and respawn points\<close>

lemma before_entities_holes:
  "holes (before_entities s) =
     map (\<lambda>h. h\<lparr> timer := timer h - 1 \<rparr>) (filter (\<lambda>h. 1 < timer h) (holes s))"
  by (simp add: before_entities_def update_holes_holes)

lemma step_holes:
  "holes (step s) =
     map (\<lambda>h. h\<lparr> timer := timer h - 1 \<rparr>) (filter (\<lambda>h. 1 < timer h) (holes s))"
  by (simp add: step_eq before_entities_holes)

lemma holes_timed_apply_event: "holes_timed s \<Longrightarrow> holes_timed (apply_event s ev)"
  by (cases ev)
     (auto simp: holes_timed_def reset_fields dig_holes step_holes HOLE_REGEN_FRAMES_def)

lemma reachable_holes_timed: "reachable s \<Longrightarrow> holes_timed s"
  by (induction rule: reachable.induct)
     (simp_all add: holes_timed_apply_event, simp add: holes_timed_def reset_fields)

lemma before_entities_enemies:
  "enemies (before_entities s) =
     map (\<lambda>e. if expiring (holes s) (e_x e) (e_y e) then relocate e else e) (enemies s)"
  by (simp add: before_entities_def update_holes_enemies)

lemma before_entities_tile:
  "rect (grid s) \<Longrightarrow>
   tile (before_entities s) x y = (if expiring (holes s) x y then BRICK else tile s x y)"
  by (simp add: before_entities_def update_holes_tile)

lemma before_entities_in_bounds [simp]:
  "in_bounds (grid (before_entities s)) x y = in_bounds (grid s) x y"
  by (simp add: before_entities_def)

lemma step_in_bounds:
  assumes "rect (grid s)"
  shows "in_bounds (grid (step s)) x y = in_bounds (grid s) x y"
proof -
  have "rect (grid (before_entities s))" using assms by (rule before_entities_rect)
  then have "gold_taken (before_entities s) (step s)"
    unfolding step_eq by (rule gold_taken_update_entities)
  then show ?thesis by (simp add: gold_taken_def)
qed

lemma map_respawn_update:
  "respawn e' = respawn (es ! i) \<Longrightarrow> map respawn (es[i := e']) = map respawn es"
proof (cases "i < length es")
  case True
  assume "respawn e' = respawn (es ! i)"
  then have "(map respawn es)[i := respawn e'] = (map respawn es)[i := map respawn es ! i]"
    using True by simp
  then show ?thesis by (simp add: map_update)
next
  case False
  then have "es[i := e'] = es" by (simp add: list_update_beyond)
  then show ?thesis by simp
qed

lemma try_move_enemy_respawn [simp]:
  "map respawn (enemies (snd (try_move_enemy s i dx dy))) = map respawn (enemies s)"
  by (simp add: try_move_enemy_eq map_respawn_update)

lemma enemy_turn_cases:
  "enemy_turn s i = s \<or> (\<exists>dx dy. enemy_turn s i = snd (try_move_enemy s i dx dy))"
proof (cases "gravity_applies s (e_x (enemies s ! i)) (e_y (enemies s ! i))")
  case True
  then show ?thesis by (auto simp: enemy_turn_def)
next
  case False
  then have "enemy_turn s i = enemy_ai_step s i" by (simp add: enemy_turn_def)
  then show ?thesis
    unfolding enemy_ai_step_policy by (auto split: option.splits)
qed

lemma enemy_turn_respawn [simp]:
  "map respawn (enemies (enemy_turn s i)) = map respawn (enemies s)"
  using enemy_turn_cases[of s i] by auto

lemma foldl_enemy_turn_respawn [simp]:
  "map respawn (enemies (foldl enemy_turn s js)) = map respawn (enemies s)"
  by (induction js arbitrary: s) simp_all

lemma move_enemies_respawn [simp]:
  "map respawn (enemies (move_enemies s)) = map respawn (enemies s)"
  by (simp add: move_enemies_def Let_def)

lemma update_entities_respawn [simp]:
  "map respawn (enemies (update_entities s)) = map respawn (enemies s)"
  by (simp add: update_entities_def win_point_def[symmetric])

lemma before_entities_respawn [simp]:
  "map respawn (enemies (before_entities s)) = map respawn (enemies s)"
  by (simp add: before_entities_enemies comp_def)

lemma step_respawn: "map respawn (enemies (step s)) = map respawn (enemies s)"
  by (simp add: step_eq)

section \<open>Regenerated cells and the life of a fresh hole\<close>

lemma nobody_at_try_move_enemy:
  assumes "tile s x y = BRICK" "nobody_at s x y"
  shows "nobody_at (snd (try_move_enemy s i dx dy)) x y"
  using try_move_enemy_cases[of s i dx dy]
proof
  assume "snd (try_move_enemy s i dx dy) = s"
  then show ?thesis using assms(2) by simp
next
  let ?e' = "(enemies s ! i)\<lparr> e_x := e_x (enemies s ! i) + dx, e_y := e_y (enemies s ! i) + dy \<rparr>"
  assume a: "is_walkable (tile s (e_x (enemies s ! i) + dx) (e_y (enemies s ! i) + dy)) \<and>
    \<not> other_enemy_at s i (e_x (enemies s ! i) + dx) (e_y (enemies s ! i) + dy) \<and>
    snd (try_move_enemy s i dx dy) = s\<lparr> enemies := (enemies s)[i := ?e'] \<rparr>"
  then have "(e_x ?e', e_y ?e') \<noteq> (x, y)"
    using assms(1) by (auto simp: is_walkable_def)
  moreover have "set ((enemies s)[i := ?e']) \<subseteq> insert ?e' (set (enemies s))"
    by (rule set_update_subset_insert)
  ultimately have "\<forall>e \<in> set ((enemies s)[i := ?e']). (e_x e, e_y e) \<noteq> (x, y)"
    using assms(2) unfolding nobody_at_def by blast
  then show ?thesis using a by (simp add: nobody_at_def)
qed

lemma nobody_at_enemy_turn:
  assumes "tile s x y = BRICK" "nobody_at s x y"
  shows "nobody_at (enemy_turn s i) x y"
  using enemy_turn_cases[of s i] nobody_at_try_move_enemy[OF assms] assms(2) by auto

lemma enemy_turn_tile [simp]: "tile (enemy_turn s i) x y = tile s x y"
  by (simp add: tile_def)

lemma nobody_at_foldl:
  "tile s x y = BRICK \<Longrightarrow> nobody_at s x y \<Longrightarrow> nobody_at (foldl enemy_turn s js) x y"
proof (induction js arbitrary: s)
  case Nil
  then show ?case by simp
next
  case (Cons j js)
  have "tile (enemy_turn s j) x y = BRICK" using Cons.prems(1) by simp
  moreover have "nobody_at (enemy_turn s j) x y" using Cons.prems by (rule nobody_at_enemy_turn)
  ultimately show ?case using Cons.IH by simp
qed

lemma nobody_at_move_enemies:
  assumes "tile s x y = BRICK" "nobody_at s x y"
  shows "nobody_at (move_enemies s) x y"
proof -
  let ?s1 = "s\<lparr> enemy_frame_counter := 0 \<rparr>"
  have "tile ?s1 x y = BRICK" using assms(1) by simp
  moreover have "nobody_at ?s1 x y" using assms(2) by (simp add: nobody_at_def)
  ultimately have "nobody_at (foldl enemy_turn ?s1 [0..<length (enemies s)]) x y"
    by (rule nobody_at_foldl)
  then show ?thesis using assms(2) by (simp add: move_enemies_def Let_def nobody_at_def)
qed

lemma brick_kept:
  assumes "gold_taken s s'" "tile s x y = BRICK"
  shows "tile s' x y = BRICK"
  using assms unfolding gold_taken_def by (metis tile.distinct(15))

lemma nobody_at_update_entities:
  assumes r: "rect (grid s)" and t: "tile s x y = BRICK" and n: "nobody_at s x y"
  shows "nobody_at (update_entities s) x y \<and> tile (update_entities s) x y = BRICK"
proof -
  have tb: "tile (update_entities s) x y = BRICK"
    using gold_taken_update_entities[OF r] t by (rule brick_kept)
  have "nobody_at (update_entities s) x y"
  proof (cases "won s \<or> dead s \<or> countdown s > 0")
    case True
    then show ?thesis using n by (simp add: update_entities_idle)
  next
    case False
    let ?w = "check_win (win_point s)"
    have "tile ?w x y = BRICK" using gold_taken_win_point[OF r] t by (simp add: brick_kept)
    moreover have "nobody_at ?w x y" using n by (simp add: nobody_at_def)
    ultimately have "nobody_at (move_enemies ?w) x y" by (rule nobody_at_move_enemies)
    then show ?thesis using False by (simp add: update_entities_running nobody_at_def)
  qed
  then show ?thesis using tb by simp
qed

lemma expired_cell_after_regen:
  assumes l: "level_inv s" and e: "expiring (holes s) x y"
  shows "tile (before_entities s) x y = BRICK \<and> nobody_at (before_entities s) x y"
proof -
  have r: "rect (grid s)" using l by (rule level_inv_rect)
  have t: "tile (before_entities s) x y = BRICK" using r e by (simp add: before_entities_tile)
  have hc: "holes_clear (holes s)" and ok: "\<forall>e \<in> set (enemies s). enemy_ok e"
    using l by (simp_all add: level_inv_def)
  have xy: "(x, y) \<noteq> (17, 9)"
    using expiring_clear[OF hc, of 9] e by auto
  have "(e_x e', e_y e') \<noteq> (x, y)" if "e' \<in> set (enemies (before_entities s))" for e'
  proof -
    from that obtain e0 where e0: "e0 \<in> set (enemies s)"
      "e' = (if expiring (holes s) (e_x e0) (e_y e0) then relocate e0 else e0)"
      unfolding before_entities_enemies by auto
    show ?thesis
    proof (cases "expiring (holes s) (e_x e0) (e_y e0)")
      case True
      have "respawn e0 = (17, 9)" using ok e0(1) by (simp add: enemy_ok_def)
      then show ?thesis using e0(2) True xy by auto
    next
      case False
      then show ?thesis using e0(2) e by auto
    qed
  qed
  then show ?thesis using t by (simp add: nobody_at_def)
qed

lemma expired_cell_after_step:
  assumes l: "level_inv s" and e: "expiring (holes s) x y"
  shows "tile (step s) x y = BRICK \<and> nobody_at (step s) x y"
proof -
  have r: "rect (grid (before_entities s))"
    using level_inv_rect[OF l] by (rule before_entities_rect)
  have b: "tile (before_entities s) x y = BRICK" "nobody_at (before_entities s) x y"
    using expired_cell_after_regen[OF l e] by simp_all
  show ?thesis unfolding step_eq using nobody_at_update_entities[OF r b] by simp
qed

lemma reachable_step: "reachable s \<Longrightarrow> reachable (step s)"
  using reachable_event[of s Tick] by simp

lemma reachable_funpow: "reachable s \<Longrightarrow> reachable ((step ^^ k) s)"
  by (induction k) (simp_all add: reachable_step)

lemma reachable_dig: "reachable s \<Longrightarrow> d = 1 \<or> d = - 1 \<Longrightarrow> reachable (dig s d)"
  using reachable_event[of s K_x] reachable_event[of s K_z] by auto

lemma dec_after_sub:
  "map (\<lambda>h. h\<lparr> timer := timer h - 1 \<rparr>)
     (filter (\<lambda>h. 1 < timer h)
        (map (\<lambda>h. h\<lparr> timer := timer h - k \<rparr>) (filter (\<lambda>h. k < timer h) hs))) =
   map (\<lambda>h. h\<lparr> timer := timer h - (k + 1) \<rparr>) (filter (\<lambda>h. k + 1 < timer h) hs)"
  by (induction hs) (auto simp: algebra_simps)

lemma funpow_holes:
  assumes "\<forall>h \<in> set (holes s). 0 < timer h"
  shows "holes ((step ^^ k) s) =
     map (\<lambda>h. h\<lparr> timer := timer h - int k \<rparr>) (filter (\<lambda>h. int k < timer h) (holes s))"
proof (induction k)
  case 0
  have "filter (\<lambda>h. 0 < timer h) (holes s) = holes s" using assms by (simp add: filter_id_conv)
  then show ?case by (simp add: map_idI)
next
  case (Suc k)
  have "holes ((step ^^ Suc k) s) =
      map (\<lambda>h. h\<lparr> timer := timer h - 1 \<rparr>)
        (filter (\<lambda>h. 1 < timer h) (holes ((step ^^ k) s)))"
    by (simp add: step_holes)
  also have "\<dots> = map (\<lambda>h. h\<lparr> timer := timer h - (int k + 1) \<rparr>)
        (filter (\<lambda>h. int k + 1 < timer h) (holes s))"
    unfolding Suc.IH by (rule dec_after_sub)
  finally show ?case by (simp add: algebra_simps)
qed

lemma funpow_in_bounds:
  assumes "reachable s"
  shows "in_bounds (grid ((step ^^ k) s)) x y = in_bounds (grid s) x y"
proof (induction k)
  case 0
  then show ?case by simp
next
  case (Suc k)
  have "reachable ((step ^^ k) s)" using assms by (rule reachable_funpow)
  then have "level_inv ((step ^^ k) s)" using reachable_inv by (simp add: inv_def)
  then have "rect (grid ((step ^^ k) s))" by (rule level_inv_rect)
  then show ?case using Suc by (simp add: step_in_bounds)
qed

lemma reachable_level_inv: "reachable s \<Longrightarrow> level_inv s"
  using reachable_inv by (simp add: inv_def)

lemma fresh_hole_lifecycle:
  assumes reach: "reachable s" and d: "d = 1 \<or> d = - 1" and ok: "dig_ok s d"
  defines "tx \<equiv> p_x (player s) + d" and "ty \<equiv> p_y (player s) + 1"
  shows "holes (dig s d) = holes s @ [\<lparr> h_x = tx, h_y = ty, timer = 240 \<rparr>]"
    and "k < 240 \<Longrightarrow>
           \<lparr> h_x = tx, h_y = ty, timer = 240 - int k \<rparr> \<in> set (holes ((step ^^ k) (dig s d)))"
    and "k < 240 \<Longrightarrow> in_bounds (grid s) tx ty \<Longrightarrow> tile ((step ^^ k) (dig s d)) tx ty = EMPTY"
    and "holes ((step ^^ 240) (dig s d)) = []"
    and "tile ((step ^^ 240) (dig s d)) tx ty = BRICK"
    and "nobody_at ((step ^^ 240) (dig s d)) tx ty"
proof -
  let ?s1 = "dig s d"
  let ?new = "\<lparr> h_x = tx, h_y = ty, timer = 240 \<rparr>"
  have r1: "reachable ?s1" using reach d by (rule reachable_dig)
  have ht: "holes_timed ?s1" using r1 by (rule reachable_holes_timed)
  then have pos: "\<forall>h \<in> set (holes ?s1). 0 < timer h" by (simp add: holes_timed_def)
  show hs: "holes ?s1 = holes s @ [?new]"
    using ok by (simp add: dig_holes tx_def ty_def HOLE_REGEN_FRAMES_def)
  have mem: "\<lparr> h_x = tx, h_y = ty, timer = 240 - int k \<rparr> \<in> set (holes ((step ^^ k) ?s1))"
    if "k < 240" for k
  proof -
    have "?new \<in> set (filter (\<lambda>h. int k < timer h) (holes ?s1))" using that hs by simp
    then have "?new\<lparr> timer := timer ?new - int k \<rparr> \<in> set (holes ((step ^^ k) ?s1))"
      unfolding funpow_holes[OF pos] set_map by (rule imageI)
    then show ?thesis by simp
  qed
  show "k < 240 \<Longrightarrow>
           \<lparr> h_x = tx, h_y = ty, timer = 240 - int k \<rparr> \<in> set (holes ((step ^^ k) (dig s d)))"
    by (rule mem)
  show "tile ((step ^^ k) ?s1) tx ty = EMPTY" if k: "k < 240" and ib: "in_bounds (grid s) tx ty"
  proof -
    let ?sk = "(step ^^ k) ?s1"
    have rk: "reachable ?sk" using r1 by (rule reachable_funpow)
    then have hi: "holes_inv ?sk" using reachable_inv by (simp add: inv_def)
    have "inside ?sk \<lparr> h_x = tx, h_y = ty, timer = 240 - int k \<rparr>"
      using ib by (simp add: inside_def funpow_in_bounds[OF r1])
    then show ?thesis using hi mem[OF k] unfolding holes_inv_def by fastforce
  qed
  show "holes ((step ^^ 240) ?s1) = []"
  proof -
    have "filter (\<lambda>h. int 240 < timer h) (holes ?s1) = []"
      using ht by (auto simp: holes_timed_def HOLE_REGEN_FRAMES_def filter_empty_conv)
    then show ?thesis unfolding funpow_holes[OF pos] by simp
  qed
  let ?s239 = "(step ^^ 239) ?s1"
  have "\<lparr> h_x = tx, h_y = ty, timer = 240 - int 239 \<rparr> \<in> set (holes ?s239)"
    by (rule mem) simp
  then have ex: "expiring (holes ?s239) tx ty"
    by (auto simp: expiring_def list_ex_iff intro!: bexI[where x = "\<lparr> h_x = tx, h_y = ty, timer = 240 - int 239 \<rparr>"])
  have "reachable ?s239" using r1 by (rule reachable_funpow)
  then have "level_inv ?s239" by (rule reachable_level_inv)
  then have "tile (step ?s239) tx ty = BRICK \<and> nobody_at (step ?s239) tx ty"
    using ex by (rule expired_cell_after_step)
  moreover have "step ?s239 = (step ^^ 240) ?s1"
  proof -
    have "(240::nat) = Suc 239" by simp
    then show ?thesis by (simp only: funpow.simps comp_def)
  qed
  ultimately show "tile ((step ^^ 240) ?s1) tx ty = BRICK" "nobody_at ((step ^^ 240) ?s1) tx ty"
    by simp_all
qed

section \<open>The enemy chase policy\<close>

text \<open>
  \<open>chase_policy_spec\<close> is the decision table as the specification words it: from the
  enemy's position, the player's position and the three tiles at, above and below the
  enemy, the step to attempt, if any. \<open>enemy_ai_step\<close> is the code.
\<close>

text \<open>
  Claim C9. An enemy not subject to gravity takes its turn by the chase policy: ladder
  alignment first (up before down), then the same-row chase (no step when the columns are
  equal), then the horizontal fallback; the first applicable rule decides and no lower rule
  is tried. The chosen step goes through \<open>try_move_enemy\<close>, which moves the enemy exactly
  when the destination tile is walkable and no other enemy stands there, and otherwise
  leaves the state as it was.
\<close>

theorem C9_chase_policy:
  "(\<not> gravity_applies s (e_x (enemies s ! i)) (e_y (enemies s ! i)) \<longrightarrow>
      enemy_turn s i =
        (case chase_policy_spec (e_x (enemies s ! i), e_y (enemies s ! i))
                (p_x (player s), p_y (player s))
                (tile s (e_x (enemies s ! i)) (e_y (enemies s ! i)))
                (tile s (e_x (enemies s ! i)) (e_y (enemies s ! i) - 1))
                (tile s (e_x (enemies s ! i)) (e_y (enemies s ! i) + 1)) of
           None \<Rightarrow> s
         | Some (dx, dy) \<Rightarrow> snd (try_move_enemy s i dx dy))) \<and>
   snd (try_move_enemy s i dx dy) =
     (if is_walkable (tile s (e_x (enemies s ! i) + dx) (e_y (enemies s ! i) + dy)) \<and>
         \<not> other_enemy_at s i (e_x (enemies s ! i) + dx) (e_y (enemies s ! i) + dy)
      then s\<lparr> enemies := (enemies s)[i := (enemies s ! i)\<lparr> e_x := e_x (enemies s ! i) + dx,
                                                        e_y := e_y (enemies s ! i) + dy \<rparr>] \<rparr>
      else s)"
  using enemy_ai_step_policy[of s i] try_move_enemy_eq[of s i dx dy]
  by (simp add: enemy_turn_def)

lemma tile_level:
  "tile_at level_grid x y =
     (if 0 \<le> y \<and> y < 17 \<and> 0 \<le> x \<and> x < 20 then level_grid ! nat y ! nat x else BRICK)"
  by (simp add: tile_at_def level_in_bounds)

theorem C9_chase_policy_witness:
  "\<not> gravity_applies same_row_scene 10 15 \<and>
   enemies same_row_scene = [\<lparr> e_x = 10, e_y = 15, respawn = (17, 9) \<rparr>] \<and>
   enemies (enemy_turn same_row_scene 0) = [\<lparr> e_x = 9, e_y = 15, respawn = (17, 9) \<rparr>]"
proof -
  have t: "tile same_row_scene x y = tile_at level_grid x y" for x y
    by (simp add: same_row_scene_def tile_def reset_fields)
  have g: "\<not> gravity_applies same_row_scene 10 15"
    by (simp add: gravity_applies_def t tile_at_def in_bounds_def Let_def is_rope_def is_climbable_def is_solid_def level_grid_eq)
  have es: "enemies same_row_scene = [\<lparr> e_x = 10, e_y = 15, respawn = (17, 9) \<rparr>]"
    by (simp add: same_row_scene_def)
  have pl: "player same_row_scene = \<lparr> p_x = 5, p_y = 15, gold = 0 \<rparr>"
    by (simp add: same_row_scene_def)
  have pol: "chase_policy_spec (10, 15) (5, 15) (tile same_row_scene 10 15)
      (tile same_row_scene 10 14) (tile same_row_scene 10 16) = Some (- 1, 0)"
    by (simp add: chase_policy_spec_def t tile_at_def in_bounds_def is_climbable_def is_walkable_def level_grid_eq)
  have w: "is_walkable (tile same_row_scene 9 15)"
    by (simp add: t tile_at_def in_bounds_def is_walkable_def level_grid_eq)
  have o: "\<not> other_enemy_at same_row_scene 0 9 15"
    by (simp add: other_enemy_at_def es)
  show ?thesis
    using C9_chase_policy[of same_row_scene 0 "- 1" 0] g es pl pol w o
    by simp
qed

section \<open>Regeneration under the player\<close>

text \<open>
  Claim C10. Hole regeneration relocates enemies only: it leaves the player record (position
  and gold), \<open>won\<close>, \<open>dead\<close> and \<open>countdown\<close> as they were, removes every hole whose timer
  reaches zero, relocates exactly the enemies standing on an expiring hole's cell, and when
  the player stands on such a cell the player's cell reads \<open>BRICK\<close> afterwards.
\<close>

theorem C10_regen_seals_player:
  "player (update_holes s) = player s \<and> won (update_holes s) = won s \<and>
   dead (update_holes s) = dead s \<and> countdown (update_holes s) = countdown s \<and>
   holes (update_holes s) =
     map (\<lambda>h. h\<lparr> timer := timer h - 1 \<rparr>) (filter (\<lambda>h. 1 < timer h) (holes s)) \<and>
   enemies (update_holes s) =
     map (\<lambda>e. if expiring (holes s) (e_x e) (e_y e) then relocate e else e) (enemies s) \<and>
   (rect (grid s) \<and> expiring (holes s) (p_x (player s)) (p_y (player s)) \<longrightarrow>
      tile (update_holes s) (p_x (player (update_holes s))) (p_y (player (update_holes s))) = BRICK)"
  by (simp add: update_holes_holes update_holes_enemies update_holes_tile)

lemma dig_reset_1:
  "grid (dig reset 1) = grid (set_tile reset 12 16 EMPTY)"
  "player (dig reset 1) = player reset"
  "enemies (dig reset 1) = enemies reset"
  by (simp_all add: dig_def Let_def reset_fields tile_def tile_at_def in_bounds_def is_walkable_def level_grid_eq)

theorem C10_regen_seals_player_witness:
  "rect (grid sealed_scene) \<and> expiring (holes sealed_scene) 12 16 \<and>
   player sealed_scene = \<lparr> p_x = 12, p_y = 16, gold = 0 \<rparr> \<and>
   player (update_holes sealed_scene) = \<lparr> p_x = 12, p_y = 16, gold = 0 \<rparr> \<and>
   holes (update_holes sealed_scene) = [] \<and>
   tile (update_holes sealed_scene) 12 16 = BRICK"
proof -
  have r: "rect (grid sealed_scene)"
    by (simp add: sealed_scene_def dig_reset_1 set_tile_rect reset_fields level_rect)
  have e: "expiring (holes sealed_scene) 12 16"
    by (simp add: sealed_scene_def expiring_def)
  have p: "player sealed_scene = \<lparr> p_x = 12, p_y = 16, gold = 0 \<rparr>"
    by (simp add: sealed_scene_def)
  have h: "holes sealed_scene = [\<lparr> h_x = 12, h_y = 16, timer = 1 \<rparr>]"
    by (simp add: sealed_scene_def)
  show ?thesis
    using C10_regen_seals_player[of sealed_scene] r e p h by simp
qed

section \<open>The win condition\<close>

text \<open>
  Claim C6. \<open>won\<close> is set only by the win check of \<open>update_entities\<close>, which runs only
  when the game is neither won nor dead and the countdown is over; there it is set exactly
  when no \<open>GOLD\<close> tile is left in the grid and the player stands on the exit, both read
  after the player's gravity step and gold pickup of that tick (\<open>win_point\<close>). For a whole
  tick: \<open>won\<close> holds after \<open>step\<close> exactly when it held before, or the tick was processed
  as running and the condition held at its win check.
\<close>

theorem C6_win_condition:
  "(won s \<or> dead s \<or> countdown s > 0 \<longrightarrow> update_entities s = s) \<and>
   (\<not> won s \<and> \<not> dead s \<and> countdown s \<le> 0 \<longrightarrow>
      won (update_entities s) =
        (\<not> any_gold_left (grid (win_point s)) \<and>
         (p_x (player (win_point s)), p_y (player (win_point s))) = exit_pos s)) \<and>
   won (step s) =
     (won s \<or>
      (\<not> dead s \<and> countdown s \<le> 1 \<and>
       \<not> any_gold_left (grid (win_point (before_entities s))) \<and>
       (p_x (player (win_point (before_entities s))),
        p_y (player (win_point (before_entities s)))) = exit_pos s)) \<and>
   (rect g \<longrightarrow> any_gold_left g = (\<exists>x y. tile_at g x y = GOLD))"
proof (intro conjI impI)
  show "update_entities s = s" if "won s \<or> dead s \<or> 0 < countdown s"
    using that by (rule update_entities_idle)
  show "won (update_entities s) =
        (\<not> any_gold_left (grid (win_point s)) \<and>
         (p_x (player (win_point s)), p_y (player (win_point s))) = exit_pos s)"
    if "\<not> won s \<and> \<not> dead s \<and> countdown s \<le> 0"
    using that by (simp add: update_entities_running check_win_won)
  show "won (step s) =
     (won s \<or>
      (\<not> dead s \<and> countdown s \<le> 1 \<and>
       \<not> any_gold_left (grid (win_point (before_entities s))) \<and>
       (p_x (player (win_point (before_entities s))),
        p_y (player (win_point (before_entities s)))) = exit_pos s))"
  proof (cases "won s \<or> dead s \<or> 1 < countdown s")
    case True
    then have "won (before_entities s) \<or> dead (before_entities s) \<or> 0 < countdown (before_entities s)"
      by auto
    then have "step s = before_entities s" by (simp add: step_eq update_entities_idle)
    then show ?thesis using True by auto
  next
    case False
    then have "\<not> won (before_entities s)" "\<not> dead (before_entities s)"
      "countdown (before_entities s) \<le> 0" by auto
    then show ?thesis using False
      by (simp add: step_eq update_entities_running check_win_won)
  qed
  show "any_gold_left g = (\<exists>x y. tile_at g x y = GOLD)" if "rect g"
    using that by (rule any_gold_left_tile)
qed

lemma exit_scene_fields:
  "won exit_scene = False" "dead exit_scene = False" "countdown exit_scene = 0"
  "exit_pos exit_scene = (13, 11)"
  "player exit_scene = \<lparr> p_x = 13, p_y = 10, gold = 3 \<rparr>"
  "grid exit_scene = map (map (\<lambda>t. if t = GOLD then EMPTY else t)) level_grid"
  by (simp_all add: exit_scene_def reset_fields)

lemma exit_scene_win_point:
  "player (win_point exit_scene) = \<lparr> p_x = 13, p_y = 11, gold = 3 \<rparr>"
  "grid (win_point exit_scene) = grid exit_scene"
  by (simp_all add: win_point_def player_gravity_def gravity_applies_def try_move_def
        collect_gold_def Let_def tile_def tile_at_def in_bounds_def exit_scene_fields
        is_rope_def is_climbable_def is_solid_def is_walkable_def level_grid_eq)

theorem C6_win_condition_witness:
  "update_entities reset = reset \<and> rect level_grid \<and>
   any_gold_left level_grid = (\<exists>x y. tile_at level_grid x y = GOLD) \<and>
   \<not> won exit_scene \<and> \<not> dead exit_scene \<and> countdown exit_scene \<le> 0 \<and>
   won (update_entities exit_scene) \<and> won (step exit_scene)"
proof -
  have a: "won reset \<or> dead reset \<or> 0 < countdown reset" by (simp add: reset_fields)
  have g: "\<not> any_gold_left (grid (win_point exit_scene))"
    by (simp add: exit_scene_win_point exit_scene_fields any_gold_left_def level_grid_eq)
  have b: "before_entities exit_scene = exit_scene"
    by (simp add: before_entities_def exit_scene_fields update_holes_def exit_scene_def reset_fields)
  show ?thesis
    using C6_win_condition[of reset level_grid] C6_win_condition[of exit_scene level_grid]
      a g b level_rect
    by (simp add: exit_scene_fields exit_scene_win_point)
qed

section \<open>Collision with an enemy\<close>

text \<open>
  Claim C8. On every tick processed as running, \<open>dead\<close> is set exactly when some enemy's
  coordinates equal the player's at the collision check at the end of the tick. The check
  does not depend on the enemy-movement counter: on a tick where the enemies do not move,
  an enemy standing on the player's cell still sets \<open>dead\<close>.
\<close>

theorem C8_collision:
  "(\<not> won s \<and> \<not> dead s \<and> countdown s \<le> 1 \<longrightarrow> dead (step s) = collides (step s)) \<and>
   (\<not> won s \<and> \<not> dead s \<and> countdown s \<le> 0 \<longrightarrow>
      dead (update_entities s) = collides (update_entities s)) \<and>
   collides s =
     (\<exists>e \<in> set (enemies s). (e_x e, e_y e) = (p_x (player s), p_y (player s))) \<and>
   (\<not> won s \<and> \<not> dead s \<and> countdown s \<le> 0 \<and>
    enemy_frame_counter s + 1 < ENEMY_MOVE_INTERVAL \<and>
    (\<exists>e \<in> set (enemies s).
       (e_x e, e_y e) = (p_x (player (player_gravity s)), p_y (player (player_gravity s)))) \<longrightarrow>
      enemies (update_entities s) = enemies s \<and> dead (update_entities s))"
proof (intro conjI impI)
  show "dead (update_entities s) = collides (update_entities s)"
    if "\<not> won s \<and> \<not> dead s \<and> countdown s \<le> 0" for s
    using that by (simp add: update_entities_running check_collision_dead)
  then show "dead (step s) = collides (step s)" if "\<not> won s \<and> \<not> dead s \<and> countdown s \<le> 1"
    using that by (simp add: step_eq)
  show "collides s =
     (\<exists>e \<in> set (enemies s). (e_x e, e_y e) = (p_x (player s), p_y (player s)))"
    by (rule collides_iff)
  assume a: "\<not> won s \<and> \<not> dead s \<and> countdown s \<le> 0 \<and>
    enemy_frame_counter s + 1 < ENEMY_MOVE_INTERVAL \<and>
    (\<exists>e \<in> set (enemies s).
       (e_x e, e_y e) = (p_x (player (player_gravity s)), p_y (player (player_gravity s))))"
  then have es: "enemies (move_enemies (check_win (win_point s))) = enemies s"
    by (simp add: move_enemies_idle)
  show "enemies (update_entities s) = enemies s"
    using a es by (simp add: update_entities_running)
  have "collides (move_enemies (check_win (win_point s)))"
    using a es by (simp add: collides_iff win_point_def)
  then show "dead (update_entities s)"
    using a by (simp add: update_entities_running check_collision_dead)
qed

lemma overlap_scene_fields:
  "won overlap_scene = False" "dead overlap_scene = False" "countdown overlap_scene = 0"
  "enemy_frame_counter overlap_scene = 0"
  "player overlap_scene = \<lparr> p_x = 11, p_y = 15, gold = 0 \<rparr>"
  "enemies overlap_scene = [\<lparr> e_x = 11, e_y = 15, respawn = (17, 9) \<rparr>]"
  "grid overlap_scene = level_grid"
  by (simp_all add: overlap_scene_def reset_fields)

theorem C8_collision_witness:
  "\<not> won overlap_scene \<and> \<not> dead overlap_scene \<and> countdown overlap_scene \<le> 0 \<and>
   enemy_frame_counter overlap_scene + 1 < ENEMY_MOVE_INTERVAL \<and>
   enemies overlap_scene = [\<lparr> e_x = 11, e_y = 15, respawn = (17, 9) \<rparr>] \<and>
   player (player_gravity overlap_scene) = \<lparr> p_x = 11, p_y = 15, gold = 0 \<rparr> \<and>
   enemies (update_entities overlap_scene) = enemies overlap_scene \<and>
   dead (update_entities overlap_scene) \<and> collides (update_entities overlap_scene) \<and>
   dead (step overlap_scene) = collides (step overlap_scene)"
proof -
  have p: "player (player_gravity overlap_scene) = \<lparr> p_x = 11, p_y = 15, gold = 0 \<rparr>"
    by (simp add: player_gravity_def gravity_applies_def Let_def tile_def tile_at_def
        in_bounds_def overlap_scene_fields is_rope_def is_climbable_def is_solid_def
        level_grid_eq)
  show ?thesis
    using C8_collision[of overlap_scene] p
    by (auto simp: overlap_scene_fields ENEMY_MOVE_INTERVAL_def)
qed

section \<open>The session status\<close>

text \<open>
  Claim C1. In every state reachable from \<open>reset\<close> by key events and ticks, exactly one
  of the four status values Starting(n), Running, Won, Lost holds; in particular \<open>won\<close>
  and \<open>dead\<close> are never both set.
\<close>

theorem C1_status_exclusive:
  assumes "reachable s"
  shows "(\<exists>!st. has_status s st) \<and> \<not> (won s \<and> dead s)"
proof -
  have "flags_inv s" using reachable_inv[OF assms] by (simp add: inv_def)
  then have f: "0 < countdown s \<longrightarrow> \<not> won s \<and> \<not> dead s" "\<not> (won s \<and> dead s)"
    by (simp_all add: flags_inv_def)
  have ex: "\<exists>st. has_status s st"
  proof (cases "0 < countdown s")
    case True
    then have "has_status s (Starting (countdown s))" by simp
    then show ?thesis ..
  next
    case False
    then have "has_status s Running \<or> has_status s Won \<or> has_status s Lost" by auto
    then show ?thesis by blast
  qed
  have uniq: "st = st'" if "has_status s st" "has_status s st'" for st st'
    using that f by (cases st; cases st'; auto)
  show ?thesis using ex uniq f(2) by blast
qed

theorem C1_status_exclusive_witness:
  "reachable reset \<and> has_status reset (Starting 300) \<and>
   (\<exists>!st. has_status reset st) \<and> \<not> (won reset \<and> dead reset)"
  using C1_status_exclusive[OF reachable_reset] reachable_reset
  by (simp add: reset_fields)

section \<open>The starting countdown\<close>

text \<open>
  Claim C7. In every reachable state whose countdown is still running, a movement intent
  changes nothing, and a tick changes no player or enemy coordinate, decrements the
  countdown by one and sets neither \<open>won\<close> nor \<open>dead\<close>: the status after the tick is
  Starting(n - 1), or Running when the countdown has reached 0.
\<close>

theorem C7_starting_gate:
  assumes "reachable s" "0 < countdown s"
  shows "handle_player_move s dx dy = s \<and>
         p_x (player (step s)) = p_x (player s) \<and> p_y (player (step s)) = p_y (player s) \<and>
         enemies (step s) = enemies s \<and>
         countdown (step s) = countdown s - 1 \<and> \<not> won (step s) \<and> \<not> dead (step s) \<and>
         has_status s (Starting (countdown s)) \<and>
         has_status (step s)
           (if countdown s = 1 then Running else Starting (countdown s - 1))"
proof -
  have i: "inv s" using assms(1) by (rule reachable_inv)
  then have l: "level_inv s" and f: "flags_inv s" and st: "starting_inv s"
    by (simp_all add: inv_def)
  have r: "rect (grid s)" using l by (rule level_inv_rect)
  have a: "p_x (player s) = 11" "p_y (player s) = 15"
    "\<forall>e \<in> set (enemies s). (e_x e, e_y e) = respawn e"
    "enemy_frame_counter s = 0" "tile s 11 16 = BRICK"
    using st assms(2) by (simp_all add: starting_inv_def)
  have nw: "\<not> won s" "\<not> dead s" using f assms(2) by (simp_all add: flags_inv_def)
  have ex: "exit_pos s = (13, 11)" using l by (simp add: level_inv_def)
  have rs: "\<forall>e \<in> set (enemies s). respawn e = (17, 9)"
    using l by (simp add: level_inv_def enemy_ok_def)
  let ?s0 = "s\<lparr> countdown := countdown s - 1 \<rparr>"
  let ?b = "before_entities s"
  have b: "?b = update_holes ?s0" using assms(2) by (simp add: before_entities_def)
  have es: "enemies ?b = enemies s"
    unfolding b using a(3) by (simp add: update_holes_enemies relocate_at_respawn map_idI)
  have "rect (grid ?s0)" using r by simp
  then have "tile (update_holes ?s0) 11 16 = (if expiring (holes ?s0) 11 16 then BRICK else tile ?s0 11 16)"
    by (rule update_holes_tile)
  then have t: "tile ?b 11 16 = BRICK" unfolding b using a(5) by simp
  have hm: "handle_player_move s dx dy = s"
    using assms(2) by (simp add: handle_player_move_idle)
  have main: "p_x (player (step s)) = 11 \<and> p_y (player (step s)) = 15 \<and>
      enemies (step s) = enemies s \<and> \<not> won (step s) \<and> \<not> dead (step s)"
  proof (cases "1 < countdown s")
    case True
    then have "step s = ?b" by (simp add: step_eq update_entities_idle)
    then show ?thesis using es a nw by simp
  next
    case False
    then have c: "countdown s = 1" using assms(2) by simp
    have run: "\<not> won ?b" "\<not> dead ?b" "countdown ?b \<le> 0" using nw c by simp_all
    have ng: "\<not> gravity_applies ?b 11 15"
      using t by (simp add: gravity_applies_def Let_def is_solid_def)
    have pg: "player_gravity ?b = ?b" using ng a by (simp add: player_gravity_def)
    have wp: "p_x (player (win_point ?b)) = 11" "p_y (player (win_point ?b)) = 15"
      using pg a by (simp_all add: win_point_def)
    let ?w = "check_win (win_point ?b)"
    have w: "\<not> won ?w" using wp run ex by (simp add: check_win_won)
    have me: "enemies (move_enemies ?w) = enemies s"
      using a(4) es by (simp add: move_enemies_idle ENEMY_MOVE_INTERVAL_def)
    have nc: "\<not> collides (move_enemies ?w)"
      using me wp a(3) rs by (auto simp: collides_iff)
    have "step s = check_collision (move_enemies ?w)"
      using run by (simp add: step_eq update_entities_running)
    then show ?thesis using me wp w nc run by (simp add: check_collision_dead)
  qed
  have cd: "countdown (step s) = countdown s - 1" using assms(2) by (simp add: step_eq)
  show ?thesis using hm main cd a assms(2) by auto
qed

theorem C7_starting_gate_witness:
  "reachable reset \<and> 0 < countdown reset \<and>
   handle_player_move reset 1 0 = reset \<and>
   p_x (player (step reset)) = 11 \<and> p_y (player (step reset)) = 15 \<and>
   enemies (step reset) = [\<lparr> e_x = 17, e_y = 9, respawn = (17, 9) \<rparr>] \<and>
   countdown (step reset) = 299 \<and> has_status (step reset) (Starting 299)"
  using C7_starting_gate[OF reachable_reset, of 1 0] reachable_reset
  by (simp add: reset_fields)

section \<open>Gravity\<close>

lemma gravity_applies_iff:
  "gravity_applies s x y =
     (\<not> (tile s x y = ROPE \<or> tile s x y = LADDER) \<and>
      \<not> (is_solid (tile s x (y + 1)) \<or> is_climbable (tile s x (y + 1))))"
  by (auto simp: gravity_applies_def Let_def is_rope_def is_climbable_def)

lemma player_stays:
  assumes "\<not> won s" "\<not> dead s" "countdown s \<le> 0"
    "\<not> gravity_applies s (p_x (player s)) (p_y (player s))"
  shows "p_x (player (update_entities s)) = p_x (player s)"
    "p_y (player (update_entities s)) = p_y (player s)"
  using assms by (simp_all add: update_entities_running win_point_def player_gravity_def)

lemma player_falls:
  assumes "\<not> won s" "\<not> dead s" "countdown s \<le> 0"
    "gravity_applies s (p_x (player s)) (p_y (player s))"
    "is_walkable (tile s (p_x (player s)) (p_y (player s) + 1))"
  shows "p_x (player (update_entities s)) = p_x (player s)"
    "p_y (player (update_entities s)) = p_y (player s) + 1"
  using assms
  by (simp_all add: update_entities_running win_point_def player_gravity_def try_move_def)

lemma single_enemy_falls:
  assumes es: "enemies s = [e]"
    and t: "tile s (e_x e) (e_y e) = EMPTY" "tile s (e_x e) (e_y e + 1) = EMPTY"
  shows "enemies (enemy_turn s 0) = [e\<lparr> e_y := e_y e + 1 \<rparr>]"
proof -
  have g: "gravity_applies s (e_x e) (e_y e)"
    using t by (simp add: gravity_applies_iff is_solid_def is_climbable_def)
  have o: "\<not> other_enemy_at s 0 x y" for x y
    using es by (simp add: other_enemy_at_def)
  show ?thesis
    using g o es t by (simp add: enemy_turn_def try_move_enemy_eq is_walkable_def)
qed

lemma enemy_falls_on_cadence:
  assumes reach: "reachable s"
    and run: "\<not> won s" "\<not> dead s" "countdown s \<le> 0"
    and cad: "ENEMY_MOVE_INTERVAL \<le> enemy_frame_counter s + 1"
    and e: "e \<in> set (enemies s)"
    and t: "tile s (e_x e) (e_y e) = EMPTY" "tile s (e_x e) (e_y e + 1) = EMPTY"
  shows "enemies (update_entities s) = [e\<lparr> e_y := e_y e + 1 \<rparr>]"
proof -
  have l: "level_inv s" using reachable_inv[OF reach] by (simp add: inv_def)
  then have "length (enemies s) = 1" by (simp add: level_inv_def)
  then have es: "enemies s = [e]" using e by (cases "enemies s") auto
  let ?w = "check_win (win_point s)"
  let ?m = "?w\<lparr> enemy_frame_counter := 0 \<rparr>"
  have gt: "gold_taken s (win_point s)"
    using level_inv_rect[OF l] by (rule gold_taken_win_point)
  have keep: "tile (win_point s) x y = EMPTY" if "tile s x y = EMPTY" for x y
    using gt that unfolding gold_taken_def by (metis tile.distinct(7))
  have tm: "tile ?m (e_x e) (e_y e) = EMPTY" "tile ?m (e_x e) (e_y e + 1) = EMPTY"
    using t keep by simp_all
  have em: "enemies ?m = [e]" using es by simp
  have "move_enemies ?w = enemy_turn ?m 0"
    using cad es by (simp add: move_enemies_def Let_def)
  then have "enemies (move_enemies ?w) = [e\<lparr> e_y := e_y e + 1 \<rparr>]"
    using single_enemy_falls[OF em tm] by simp
  then show ?thesis using run by (simp add: update_entities_running)
qed

text \<open>
  Claim C5. An entity at \<open>(x, y)\<close> falls exactly when its own tile is neither \<open>ROPE\<close> nor
  \<open>LADDER\<close> and the tile below is neither solid nor climbable. On a running tick a player
  on a rope or ladder keeps its coordinates, and a player on \<open>EMPTY\<close> over \<open>EMPTY\<close> ends
  the tick one cell lower. An enemy on a rope or ladder takes the chase policy's turn, not
  the fall; and in a reachable state, on a tick where the enemies act, an enemy on \<open>EMPTY\<close>
  over \<open>EMPTY\<close> ends the tick one cell lower.
\<close>

theorem C5_gravity:
  "gravity_applies s x y =
     (\<not> (tile s x y = ROPE \<or> tile s x y = LADDER) \<and>
      \<not> (is_solid (tile s x (y + 1)) \<or> is_climbable (tile s x (y + 1)))) \<and>
   (\<not> won s \<and> \<not> dead s \<and> countdown s \<le> 0 \<and>
    (tile s (p_x (player s)) (p_y (player s)) = ROPE \<or>
     tile s (p_x (player s)) (p_y (player s)) = LADDER) \<longrightarrow>
      p_x (player (update_entities s)) = p_x (player s) \<and>
      p_y (player (update_entities s)) = p_y (player s)) \<and>
   (\<not> won s \<and> \<not> dead s \<and> countdown s \<le> 0 \<and>
    tile s (p_x (player s)) (p_y (player s)) = EMPTY \<and>
    tile s (p_x (player s)) (p_y (player s) + 1) = EMPTY \<longrightarrow>
      p_x (player (update_entities s)) = p_x (player s) \<and>
      p_y (player (update_entities s)) = p_y (player s) + 1) \<and>
   (tile s (e_x (enemies s ! i)) (e_y (enemies s ! i)) = ROPE \<or>
    tile s (e_x (enemies s ! i)) (e_y (enemies s ! i)) = LADDER \<longrightarrow>
      enemy_turn s i = enemy_ai_step s i) \<and>
   (reachable s \<and> \<not> won s \<and> \<not> dead s \<and> countdown s \<le> 0 \<and>
    ENEMY_MOVE_INTERVAL \<le> enemy_frame_counter s + 1 \<and> e \<in> set (enemies s) \<and>
    tile s (e_x e) (e_y e) = EMPTY \<and> tile s (e_x e) (e_y e + 1) = EMPTY \<longrightarrow>
      enemies (update_entities s) = [e\<lparr> e_y := e_y e + 1 \<rparr>])"
proof (intro conjI impI)
  show "gravity_applies s x y =
     (\<not> (tile s x y = ROPE \<or> tile s x y = LADDER) \<and>
      \<not> (is_solid (tile s x (y + 1)) \<or> is_climbable (tile s x (y + 1))))"
    by (rule gravity_applies_iff)
next
  assume a: "\<not> won s \<and> \<not> dead s \<and> countdown s \<le> 0 \<and>
    (tile s (p_x (player s)) (p_y (player s)) = ROPE \<or>
     tile s (p_x (player s)) (p_y (player s)) = LADDER)"
  then have ng: "\<not> gravity_applies s (p_x (player s)) (p_y (player s))"
    by (simp add: gravity_applies_iff)
  show "p_x (player (update_entities s)) = p_x (player s)"
    using a ng by (intro player_stays) simp_all
  show "p_y (player (update_entities s)) = p_y (player s)"
    using a ng by (intro player_stays) simp_all
next
  assume a: "\<not> won s \<and> \<not> dead s \<and> countdown s \<le> 0 \<and>
    tile s (p_x (player s)) (p_y (player s)) = EMPTY \<and>
    tile s (p_x (player s)) (p_y (player s) + 1) = EMPTY"
  then have g: "gravity_applies s (p_x (player s)) (p_y (player s))"
    by (simp add: gravity_applies_iff is_solid_def is_climbable_def)
  have w: "is_walkable (tile s (p_x (player s)) (p_y (player s) + 1))"
    using a by (simp add: is_walkable_def)
  show "p_x (player (update_entities s)) = p_x (player s)"
    using a g w by (intro player_falls) simp_all
  show "p_y (player (update_entities s)) = p_y (player s) + 1"
    using a g w by (intro player_falls) simp_all
next
  assume "tile s (e_x (enemies s ! i)) (e_y (enemies s ! i)) = ROPE \<or>
    tile s (e_x (enemies s ! i)) (e_y (enemies s ! i)) = LADDER"
  then have "\<not> gravity_applies s (e_x (enemies s ! i)) (e_y (enemies s ! i))"
    by (simp add: gravity_applies_iff)
  then show "enemy_turn s i = enemy_ai_step s i" by (simp add: enemy_turn_def)
next
  assume "reachable s \<and> \<not> won s \<and> \<not> dead s \<and> countdown s \<le> 0 \<and>
    ENEMY_MOVE_INTERVAL \<le> enemy_frame_counter s + 1 \<and> e \<in> set (enemies s) \<and>
    tile s (e_x e) (e_y e) = EMPTY \<and> tile s (e_x e) (e_y e + 1) = EMPTY"
  then show "enemies (update_entities s) = [e\<lparr> e_y := e_y e + 1 \<rparr>]"
    by (intro enemy_falls_on_cadence) simp_all
qed

lemma rope_scene_fields:
  "won rope_scene = False" "dead rope_scene = False" "countdown rope_scene = 0"
  "player rope_scene = \<lparr> p_x = 3, p_y = 5, gold = 0 \<rparr>"
  "enemies rope_scene = [\<lparr> e_x = 12, e_y = 5, respawn = (17, 9) \<rparr>]"
  "tile rope_scene x y = tile_at level_grid x y"
  by (simp_all add: rope_scene_def reset_fields tile_def)

lemma falling_scene_fields:
  "won falling_scene = False" "dead falling_scene = False" "countdown falling_scene = 0"
  "player falling_scene = \<lparr> p_x = 8, p_y = 5, gold = 0 \<rparr>"
  "tile falling_scene x y = tile_at level_grid x y"
  by (simp_all add: falling_scene_def reset_fields tile_def)

lemma level_tiles_more:
  "tile_at level_grid 3 5 = ROPE" "tile_at level_grid 12 5 = LADDER"
  "tile_at level_grid 8 5 = EMPTY" "tile_at level_grid 8 6 = EMPTY"
  by (simp_all add: tile_at_def in_bounds_def level_grid_eq)

lemma reachable_quiet_9: "reachable (quiet 9)"
  using reachable_run[of "replicate 300 Tick @ replicate 8 Tick"] by (simp only: run_308)

theorem C5_gravity_witness:
  "tile rope_scene 3 5 = ROPE \<and>
   p_x (player (update_entities rope_scene)) = 3 \<and>
   p_y (player (update_entities rope_scene)) = 5 \<and>
   tile rope_scene 12 5 = LADDER \<and>
   enemy_turn rope_scene 0 = enemy_ai_step rope_scene 0 \<and>
   tile falling_scene 8 5 = EMPTY \<and> tile falling_scene 8 6 = EMPTY \<and>
   p_x (player (update_entities falling_scene)) = 8 \<and>
   p_y (player (update_entities falling_scene)) = 6 \<and>
   reachable (quiet 9) \<and>
   enemies (update_entities (quiet 9)) = [\<lparr> e_x = 17, e_y = 10, respawn = (17, 9) \<rparr>]"
  using C5_gravity[of rope_scene 0 0 0 "\<lparr> e_x = 17, e_y = 9, respawn = (17, 9) \<rparr>"]
    C5_gravity[of falling_scene 0 0 0 "\<lparr> e_x = 17, e_y = 9, respawn = (17, 9) \<rparr>"]
    C5_gravity[of "quiet 9" 0 0 0 "\<lparr> e_x = 17, e_y = 9, respawn = (17, 9) \<rparr>"]
    reachable_quiet_9
  by (simp add: rope_scene_fields falling_scene_fields level_tiles_more quiet_fields tile_quiet
      level_tiles ENEMY_MOVE_INTERVAL_def)

section \<open>Hole regeneration\<close>

text \<open>
  Claim C4. In every reachable state a tick decrements the timer of every hole by one and
  removes the holes whose timer reaches zero; the regeneration relocates exactly the
  enemies standing on the cell of such a hole to their respawn point, which no tick ever
  changes; after the tick the cell of every such hole reads \<open>BRICK\<close> and no enemy stands
  on it. A successful dig appends a hole with timer \<open>HOLE_REGEN_FRAMES = 240\<close>; when only
  ticks follow, that hole is in the hole list with timer \<open>240 - k\<close> after \<open>k < 240\<close> ticks
  (its cell, when a cell of the grid, reading \<open>EMPTY\<close>), and after exactly 240 ticks the
  hole list holds no hole of the time of the dig, the cell reads \<open>BRICK\<close> and no enemy
  stands on it.
\<close>

theorem C4_hole_regeneration:
  assumes "reachable s"
  shows
    "holes (step s) =
       map (\<lambda>h. h\<lparr> timer := timer h - 1 \<rparr>) (filter (\<lambda>h. 1 < timer h) (holes s)) \<and>
     enemies (before_entities s) =
       map (\<lambda>e. if expiring (holes s) (e_x e) (e_y e) then relocate e else e) (enemies s) \<and>
     map respawn (enemies (step s)) = map respawn (enemies s) \<and>
     (\<forall>h \<in> set (holes s). timer h \<le> 1 \<longrightarrow>
        tile (step s) (h_x h) (h_y h) = BRICK \<and> nobody_at (step s) (h_x h) (h_y h)) \<and>
     ((d = 1 \<or> d = - 1) \<and> dig_ok s d \<longrightarrow>
        HOLE_REGEN_FRAMES = 240 \<and>
        holes (dig s d) =
          holes s @ [\<lparr> h_x = p_x (player s) + d, h_y = p_y (player s) + 1,
                       timer = HOLE_REGEN_FRAMES \<rparr>] \<and>
        (\<forall>k<240.
           \<lparr> h_x = p_x (player s) + d, h_y = p_y (player s) + 1, timer = 240 - int k \<rparr>
             \<in> set (holes ((step ^^ k) (dig s d))) \<and>
           (in_bounds (grid s) (p_x (player s) + d) (p_y (player s) + 1) \<longrightarrow>
              tile ((step ^^ k) (dig s d)) (p_x (player s) + d) (p_y (player s) + 1) = EMPTY)) \<and>
        holes ((step ^^ 240) (dig s d)) = [] \<and>
        tile ((step ^^ 240) (dig s d)) (p_x (player s) + d) (p_y (player s) + 1) = BRICK \<and>
        nobody_at ((step ^^ 240) (dig s d)) (p_x (player s) + d) (p_y (player s) + 1))"
proof (intro conjI ballI impI allI)
  show "holes (step s) =
       map (\<lambda>h. h\<lparr> timer := timer h - 1 \<rparr>) (filter (\<lambda>h. 1 < timer h) (holes s))"
    by (rule step_holes)
  show "enemies (before_entities s) =
       map (\<lambda>e. if expiring (holes s) (e_x e) (e_y e) then relocate e else e) (enemies s)"
    by (rule before_entities_enemies)
  show "map respawn (enemies (step s)) = map respawn (enemies s)"
    by (rule step_respawn)
next
  fix h assume h: "h \<in> set (holes s)" "timer h \<le> 1"
  have l: "level_inv s" using assms by (rule reachable_level_inv)
  have e: "expiring (holes s) (h_x h) (h_y h)" using h by (rule expiring_mem)
  show "tile (step s) (h_x h) (h_y h) = BRICK" "nobody_at (step s) (h_x h) (h_y h)"
    using expired_cell_after_step[OF l e] by simp_all
next
  assume a: "(d = 1 \<or> d = - 1) \<and> dig_ok s d"
  then have d: "d = 1 \<or> d = - 1" and ok: "dig_ok s d" by simp_all
  note L = fresh_hole_lifecycle[OF assms d ok]
  show "HOLE_REGEN_FRAMES = 240" by (simp add: HOLE_REGEN_FRAMES_def)
  show "holes (dig s d) =
          holes s @ [\<lparr> h_x = p_x (player s) + d, h_y = p_y (player s) + 1,
                       timer = HOLE_REGEN_FRAMES \<rparr>]"
    using L(1) by (simp add: HOLE_REGEN_FRAMES_def)
  show "holes ((step ^^ 240) (dig s d)) = []" by (rule L(4))
  show "tile ((step ^^ 240) (dig s d)) (p_x (player s) + d) (p_y (player s) + 1) = BRICK"
    by (rule L(5))
  show "nobody_at ((step ^^ 240) (dig s d)) (p_x (player s) + d) (p_y (player s) + 1)"
    by (rule L(6))
  fix k :: nat assume k: "k < 240"
  show "\<lparr> h_x = p_x (player s) + d, h_y = p_y (player s) + 1, timer = 240 - int k \<rparr>
             \<in> set (holes ((step ^^ k) (dig s d)))"
    using k by (rule L(2))
  assume "in_bounds (grid s) (p_x (player s) + d) (p_y (player s) + 1)"
  with k show "tile ((step ^^ k) (dig s d)) (p_x (player s) + d) (p_y (player s) + 1) = EMPTY"
    by (rule L(3))
qed

lemma dig_ok_reset: "dig_ok reset 1"
  by (simp add: dig_ok_def reset_fields tile_def level_tiles is_walkable_def)

theorem C4_hole_regeneration_witness:
  "reachable reset \<and> dig_ok reset 1 \<and> in_bounds (grid reset) 12 16 \<and>
   holes (dig reset 1) = [\<lparr> h_x = 12, h_y = 16, timer = 240 \<rparr>] \<and>
   \<lparr> h_x = 12, h_y = 16, timer = 1 \<rparr> \<in> set (holes ((step ^^ 239) (dig reset 1))) \<and>
   tile ((step ^^ 239) (dig reset 1)) 12 16 = EMPTY \<and>
   holes ((step ^^ 240) (dig reset 1)) = [] \<and>
   tile ((step ^^ 240) (dig reset 1)) 12 16 = BRICK \<and>
   nobody_at ((step ^^ 240) (dig reset 1)) 12 16 \<and>
   reachable ((step ^^ 239) (dig reset 1)) \<and>
   tile (step ((step ^^ 239) (dig reset 1))) 12 16 = BRICK \<and>
   nobody_at (step ((step ^^ 239) (dig reset 1))) 12 16"
proof -
  let ?s = "(step ^^ 239) (dig reset 1)"
  have ib: "in_bounds (grid reset) 12 16"
    by (simp add: reset_fields level_in_bounds)
  note T = C4_hole_regeneration[OF reachable_reset, of 1]
  have A: "holes (dig reset 1) = [\<lparr> h_x = 12, h_y = 16, timer = 240 \<rparr>]"
    "holes ((step ^^ 240) (dig reset 1)) = []"
    "tile ((step ^^ 240) (dig reset 1)) 12 16 = BRICK"
    "nobody_at ((step ^^ 240) (dig reset 1)) 12 16"
    using T dig_ok_reset by (simp_all add: reset_fields HOLE_REGEN_FRAMES_def)
  have "\<forall>k<240. \<lparr> h_x = 12, h_y = 16, timer = 240 - int k \<rparr> \<in> set (holes ((step ^^ k) (dig reset 1))) \<and>
      tile ((step ^^ k) (dig reset 1)) 12 16 = EMPTY"
    using T dig_ok_reset ib by (simp add: reset_fields HOLE_REGEN_FRAMES_def)
  then have "\<lparr> h_x = 12, h_y = 16, timer = 240 - int 239 \<rparr> \<in> set (holes ?s) \<and>
      tile ?s 12 16 = EMPTY"
    by (elim allE[of _ 239]) simp
  then have B: "\<lparr> h_x = 12, h_y = 16, timer = 1 \<rparr> \<in> set (holes ?s)" "tile ?s 12 16 = EMPTY"
    by simp_all
  have r: "reachable ?s"
    by (intro reachable_funpow reachable_dig reachable_reset) simp
  have "\<forall>h \<in> set (holes ?s). timer h \<le> 1 \<longrightarrow>
        tile (step ?s) (h_x h) (h_y h) = BRICK \<and> nobody_at (step ?s) (h_x h) (h_y h)"
    using C4_hole_regeneration[OF r, of 1] by blast
  then have C: "tile (step ?s) 12 16 = BRICK" "nobody_at (step ?s) 12 16"
    using B(1) by fastforce+
  show ?thesis using reachable_reset dig_ok_reset ib A B r C by simp
qed

end
